theory Spec2Isabelle
  imports Complex_Main "HOL-Library.Word"
begin

section \<open>Go arithmetic used by the loop\<close>

subsection \<open>Binary floating point, round to nearest even\<close>

text \<open>
  \<^verbatim>\<open>SetTargetFps\<close> computes the frame budget in \<^verbatim>\<open>float32\<close>, and
  \<^verbatim>\<open>time.Duration.Seconds\<close> computes in \<^verbatim>\<open>float64\<close>. A finite float is a
  rational, and each operation returns the exact result rounded to the nearest
  representable value, ties to even. \<open>fl p emax emin\<close> is that rounding for a format
  with \<open>p\<close> significand bits and binary exponents from \<open>- emin\<close> to \<open>emax\<close>
  (below \<open>2 powi (- emin)\<close> the spacing stays that of the smallest exponent, as for
  subnormals). Overflow to infinity is not modelled: every value the loop rounds is
  below \<open>2 ^ 70\<close>.
\<close>

primrec halvings :: "nat \<Rightarrow> rat \<Rightarrow> int" where
  "halvings 0 x = 0"
| "halvings (Suc n) x = (if x < 2 then 0 else 1 + halvings n (x / 2))"

primrec doublings :: "nat \<Rightarrow> rat \<Rightarrow> int" where
  "doublings 0 x = 0"
| "doublings (Suc n) x = (if 1 \<le> x then 0 else doublings n (x * 2) - 1)"

definition binexp :: "nat \<Rightarrow> nat \<Rightarrow> rat \<Rightarrow> int" where
  "binexp emax emin x = (if 1 \<le> x then halvings emax x else doublings emin x)"

definition round_even :: "rat \<Rightarrow> int" where
  "round_even q = (let f = \<lfloor>q\<rfloor>; d = q - of_int f in
     if d < 1 / 2 then f else if 1 / 2 < d then f + 1 else if even f then f else f + 1)"

definition fl_pos :: "nat \<Rightarrow> nat \<Rightarrow> nat \<Rightarrow> rat \<Rightarrow> rat" where
  "fl_pos p emax emin x =
     (let u = 2 powi (binexp emax emin x - (int p - 1)) in of_int (round_even (x / u)) * u)"

definition fl :: "nat \<Rightarrow> nat \<Rightarrow> nat \<Rightarrow> rat \<Rightarrow> rat" where
  "fl p emax emin x =
     (if x = 0 then 0 else if x < 0 then - fl_pos p emax emin (- x) else fl_pos p emax emin x)"

definition float32 :: "rat \<Rightarrow> rat" where
  "float32 = fl 24 127 126"

definition float64 :: "rat \<Rightarrow> rat" where
  "float64 = fl 53 1023 1022"

text \<open>Conversion of a float to \<^verbatim>\<open>int\<close> discards the fraction (towards zero).\<close>

definition go_int :: "rat \<Rightarrow> int" where
  "go_int x = (if x < 0 then - \<lfloor>- x\<rfloor> else \<lfloor>x\<rfloor>)"

text \<open>Integer division and remainder truncate towards zero.\<close>

definition tdiv :: "int \<Rightarrow> int \<Rightarrow> int" where
  "tdiv a b = sgn a * sgn b * (\<bar>a\<bar> div \<bar>b\<bar>)"

definition tmod :: "int \<Rightarrow> int \<Rightarrow> int" where
  "tmod a b = a - b * tdiv a b"

subsection \<open>Package time\<close>

text \<open>
  A \<^verbatim>\<open>time.Duration\<close> is a signed 64-bit count of nanoseconds. A reading of the
  monotonic clock is an integer number of nanoseconds; the difference of two readings
  saturates at the ends of the 64-bit range, as \<^verbatim>\<open>Time.Sub\<close> does.
\<close>

type_synonym Duration = int

definition Millisecond :: Duration where
  "Millisecond = 1000000"

definition Second :: Duration where
  "Second = 1000000000"

definition sat64 :: "int \<Rightarrow> Duration" where
  "sat64 d = max (- (2 ^ 63)) (min (2 ^ 63 - 1) d)"

definition Milliseconds :: "Duration \<Rightarrow> int" where
  "Milliseconds d = tdiv d 1000000"

definition Seconds :: "Duration \<Rightarrow> rat" where
  "Seconds d =
     float64 (float64 (of_int (tdiv d Second))
              + float64 (float64 (of_int (tmod d Second)) / 1000000000))"

section \<open>The loop: data\<close>

text \<open>
  \<^verbatim>\<open>src/gyro.go\<close> holds three successive revisions of the package. The last one
  (with \<^verbatim>\<open>Stop\<close>, \<^verbatim>\<open>SetRecoverFunc\<close> and the synchronous \<^verbatim>\<open>run\<close>) is the
  one the tests in \<^verbatim>\<open>src/gyro_test.go\<close> exercise, and it is the one modelled here.
  Of the first revision only \<^verbatim>\<open>SetTargetFps\<close> and \<^verbatim>\<open>GetTargetFps\<close> are modelled
  (suffix \<open>_v1\<close>), for its 16-bit target rate.
\<close>

text \<open>
  Modelled from the spec: the message constant \<^verbatim>\<open>ERR_NO_UPDATE_FUNC\<close> is declared
  in a file of the package that is not among the sources. The error made from it is the
  spec's \<^verbatim>\<open>MissingUpdateCallback\<close>, the only error \<^verbatim>\<open>Start\<close> returns; it is
  identified here by the name of the constant.
\<close>

datatype error = ERR_NO_UPDATE_FUNC

text \<open>\<^verbatim>\<open>l.stopCh\<close>: nil until \<^verbatim>\<open>run\<close> makes it, then open, then closed by \<^verbatim>\<open>Stop\<close>.\<close>

datatype chan = NilChan | OpenChan | ClosedChan

text \<open>
  A panic carries a value: one raised by a caller-supplied function, or the run-time
  error of closing a nil or an already closed channel, or of calling a nil function.
\<close>

datatype 'v panic = Raised 'v | CloseOfNilChannel | CloseOfClosedChannel | NilFunctionCall

text \<open>
  The callbacks are opaque to the package. One invocation of a caller-supplied function
  is described by what the loop can observe of it: how long it took on the monotonic
  clock, whether \<^verbatim>\<open>Stop\<close> was called on the loop while it ran, whether it panicked
  (and with which value), and the caller-owned state it leaves behind. Callbacks do not
  re-register callbacks or change the target rate of the loop that runs them.
\<close>

record ('w, 'v) call =
  took :: nat
  stops :: bool
  fault :: "'v option"
  world_after :: 'w

type_synonym ('w, 'v) InputFunc = "'w \<Rightarrow> ('w, 'v) call"

type_synonym ('w, 'v) UpdateFunc = "Duration \<Rightarrow> 'w \<Rightarrow> ('w, 'v) call"

type_synonym ('w, 'v) RenderFunc = "'w \<Rightarrow> ('w, 'v) call"

type_synonym ('w, 'v) RecoverFunc = "'v panic \<Rightarrow> 'w \<Rightarrow> ('w, 'v) call"

text \<open>
  \<^verbatim>\<open>type Loop struct\<close>. \<^verbatim>\<open>targetFps\<close> is a Go \<^verbatim>\<open>int\<close> (64 bits, signed), kept as
  a word because its whole range is an input of \<^verbatim>\<open>SetTargetFps\<close>;
  \<^verbatim>\<open>msPerFrame\<close> (between 0 and 1000) and \<^verbatim>\<open>currentFps\<close> are kept as integers.
  A nil function is \<open>None\<close>. The field \<^verbatim>\<open>once\<close> is never used by this revision.
\<close>

record ('w, 'v) Loop =
  targetFps :: "64 word"
  msPerFrame :: int
  stopCh :: chan
  isDebugMode :: bool
  isRunning :: bool
  input :: "('w, 'v) InputFunc option"
  update :: "('w, 'v) UpdateFunc option"
  render :: "('w, 'v) RenderFunc option"
  recoverFunc :: "('w, 'v) RecoverFunc option"
  currentFps :: int

text \<open>
  What the loop does to its surroundings is recorded in a trace: each call of a
  callback (the update with its argument), each \<^verbatim>\<open>time.Sleep\<close> with its duration,
  and each call of the recover function with the value it is given.
\<close>

datatype 'v event = EvInput | EvUpdate Duration | EvRender | EvSleep Duration | EvRecover "'v panic"

record ('w, 'v) env =
  now :: int
  world :: 'w
  trace :: "'v event list"

text \<open>The local variables of \<^verbatim>\<open>run\<close>.\<close>

record locals =
  frameCounter :: int
  lastFrame :: int
  lastSecond :: int

text \<open>The configuration fields of the first revision's \<^verbatim>\<open>loop\<close> struct.\<close>

record loop_v1 =
  targetFps_v1 :: "16 word"
  msPerFrame_v1 :: rat
  isDebugMode_v1 :: bool
  isSafeMode_v1 :: bool
  isRunning_v1 :: bool
  currentFps_v1 :: "16 word"

section \<open>The loop: operations\<close>

definition DEFAULT_FPS :: "64 word" where
  "DEFAULT_FPS = 60"

text \<open>
  \<^verbatim>\<open>l.targetFps = max(fps, 1)\<close>,
  \<^verbatim>\<open>l.msPerFrame = int(1.0 / float32(l.targetFps) * 1000)\<close>.
\<close>

definition msPerFrame_of :: "int \<Rightarrow> int" where
  "msPerFrame_of fps = go_int (float32 (float32 (1 / float32 (of_int fps)) * 1000))"

definition SetTargetFps :: "('w, 'v) Loop \<Rightarrow> 64 word \<Rightarrow> ('w, 'v) Loop" where
  "SetTargetFps l fps =
     (let t = (if word_sless fps 1 then 1 else fps)
      in l\<lparr>targetFps := t, msPerFrame := msPerFrame_of (sint t)\<rparr>)"

definition GetTargetFps :: "('w, 'v) Loop \<Rightarrow> 64 word" where
  "GetTargetFps l = targetFps l"

definition GetCurrentFps :: "('w, 'v) Loop \<Rightarrow> int" where
  "GetCurrentFps l = currentFps l"

definition IsRunning :: "('w, 'v) Loop \<Rightarrow> bool" where
  "IsRunning l = isRunning l"

definition SetDebug :: "('w, 'v) Loop \<Rightarrow> bool \<Rightarrow> ('w, 'v) Loop" where
  "SetDebug l debug = l\<lparr>isDebugMode := debug\<rparr>"

definition SetUpdateFunc :: "('w, 'v) Loop \<Rightarrow> ('w, 'v) UpdateFunc option \<Rightarrow> ('w, 'v) Loop" where
  "SetUpdateFunc l f = l\<lparr>update := f\<rparr>"

definition SetInputFunc :: "('w, 'v) Loop \<Rightarrow> ('w, 'v) InputFunc option \<Rightarrow> ('w, 'v) Loop" where
  "SetInputFunc l f = l\<lparr>input := f\<rparr>"

definition SetRenderFunc :: "('w, 'v) Loop \<Rightarrow> ('w, 'v) RenderFunc option \<Rightarrow> ('w, 'v) Loop" where
  "SetRenderFunc l f = l\<lparr>render := f\<rparr>"

definition SetRecoverFunc :: "('w, 'v) Loop \<Rightarrow> ('w, 'v) RecoverFunc option \<Rightarrow> ('w, 'v) Loop" where
  "SetRecoverFunc l f = l\<lparr>recoverFunc := f\<rparr>"

text \<open>\<^verbatim>\<open>l := &Loop{}; l.SetTargetFps(DEFAULT_FPS)\<close>: every field starts at its zero value.\<close>

definition NewLoop :: "('w, 'v) Loop" where
  "NewLoop = SetTargetFps
     \<lparr>targetFps = 0, msPerFrame = 0, stopCh = NilChan, isDebugMode = False, isRunning = False,
      input = None, update = None, render = None, recoverFunc = None, currentFps = 0\<rparr>
     DEFAULT_FPS"

text \<open>
  First revision: \<^verbatim>\<open>l.targetFps = uint16(max(min(fps, 65535), 1))\<close>,
  \<^verbatim>\<open>l.msPerFrame = 1000.0 / float32(l.targetFps)\<close>. The conversion to
  \<^verbatim>\<open>uint16\<close> keeps the value modulo \<open>2 ^ 16\<close>.
\<close>

definition SetTargetFps_v1 :: "loop_v1 \<Rightarrow> 64 word \<Rightarrow> loop_v1" where
  "SetTargetFps_v1 l fps =
     (let lo = (if word_sless fps 65535 then fps else 65535);
          t = (word_of_int (sint (if word_sless lo 1 then 1 else lo)) :: 16 word)
      in l\<lparr>targetFps_v1 := t, msPerFrame_v1 := float32 (1000 / float32 (of_int (uint t)))\<rparr>)"

definition GetTargetFps_v1 :: "loop_v1 \<Rightarrow> 16 word" where
  "GetTargetFps_v1 l = targetFps_v1 l"

text \<open>
  \<^verbatim>\<open>Stop\<close>: nothing when the loop is not running; otherwise the flag is cleared and
  the channel closed. Closing a nil or a closed channel panics.
\<close>

definition Stop :: "('w, 'v) Loop \<Rightarrow> ('v panic + error option) \<times> ('w, 'v) Loop" where
  "Stop l =
     (if \<not> isRunning l then (Inr None, l)
      else case stopCh l of
             OpenChan \<Rightarrow> (Inr None, l\<lparr>isRunning := False, stopCh := ClosedChan\<rparr>)
           | NilChan \<Rightarrow> (Inl CloseOfNilChannel, l\<lparr>isRunning := False\<rparr>)
           | ClosedChan \<Rightarrow> (Inl CloseOfClosedChannel, l\<lparr>isRunning := False\<rparr>))"

text \<open>
  Calling a caller-supplied function: the call is logged, the clock advances by the time
  it took, \<^verbatim>\<open>Stop\<close> takes effect if it was called meanwhile, and the result is the
  panic that leaves the call, if any.
\<close>

definition invoke ::
  "'v event \<Rightarrow> ('w \<Rightarrow> ('w, 'v) call) \<Rightarrow> ('w, 'v) Loop \<Rightarrow> ('w, 'v) env \<Rightarrow>
     'v panic option \<times> ('w, 'v) Loop \<times> ('w, 'v) env" where
  "invoke ev f l e =
     (let c = f (world e);
          e1 = e\<lparr>now := now e + int (took c), world := world_after c, trace := trace e @ [ev]\<rparr>;
          s = (if stops c then Stop l else (Inr None, l))
      in case fst s of
           Inl p \<Rightarrow> (Some p, snd s, e1)
         | Inr _ \<Rightarrow> (case fault c of
                       Some v \<Rightarrow> (Some (Raised v), snd s, e1)
                     | None \<Rightarrow> (None, snd s, e1)))"

definition Since :: "('w, 'v) env \<Rightarrow> int \<Rightarrow> Duration" where
  "Since e t = sat64 (now e - t)"

text \<open>\<^verbatim>\<open>time.Sleep(d)\<close> returns at once when \<open>d \<le> 0\<close>.\<close>

definition Sleep :: "Duration \<Rightarrow> ('w, 'v) env \<Rightarrow> ('w, 'v) env" where
  "Sleep d e = (if d \<le> 0 then e else e\<lparr>now := now e + d, trace := trace e @ [EvSleep d]\<rparr>)"

text \<open>The three guarded calls of one pass, \<^verbatim>\<open>if l.input != nil { l.input() }\<close> and so on.\<close>

definition input_phase ::
  "('w, 'v) Loop \<Rightarrow> ('w, 'v) env \<Rightarrow> 'v panic option \<times> ('w, 'v) Loop \<times> ('w, 'v) env" where
  "input_phase l e = (case input l of None \<Rightarrow> (None, l, e) | Some f \<Rightarrow> invoke EvInput f l e)"

definition update_phase ::
  "('w, 'v) Loop \<Rightarrow> locals \<Rightarrow> ('w, 'v) env \<Rightarrow> 'v panic option \<times> ('w, 'v) Loop \<times> ('w, 'v) env" where
  "update_phase l v e =
     (case update l of
        None \<Rightarrow> (None, l, e)
      | Some f \<Rightarrow> invoke (EvUpdate (Since e (lastFrame v))) (f (Since e (lastFrame v))) l e)"

definition render_phase ::
  "('w, 'v) Loop \<Rightarrow> ('w, 'v) env \<Rightarrow> 'v panic option \<times> ('w, 'v) Loop \<times> ('w, 'v) env" where
  "render_phase l e = (case render l of None \<Rightarrow> (None, l, e) | Some f \<Rightarrow> invoke EvRender f l e)"

definition phases ::
  "('w, 'v) Loop \<Rightarrow> locals \<Rightarrow> ('w, 'v) env \<Rightarrow> 'v panic option \<times> ('w, 'v) Loop \<times> ('w, 'v) env" where
  "phases l v e =
     (case input_phase l e of
        (Some p, l1, e1) \<Rightarrow> (Some p, l1, e1)
      | (None, l1, e1) \<Rightarrow>
          (case update_phase l1 v e1 of
             (Some p, l2, e2) \<Rightarrow> (Some p, l2, e2)
           | (None, l2, e2) \<Rightarrow> render_phase l2 e2))"

text \<open>
  The rate meter:
  \<^verbatim>\<open>if time.Since(lastSecond).Seconds() >= 1 { l.currentFps = frameCounter; lastSecond = time.Now(); frameCounter = 0 }\<close>.
\<close>

definition meter ::
  "('w, 'v) Loop \<Rightarrow> locals \<Rightarrow> ('w, 'v) env \<Rightarrow> ('w, 'v) Loop \<times> locals" where
  "meter l v e =
     (if 1 \<le> Seconds (Since e (lastSecond v))
      then (l\<lparr>currentFps := frameCounter v\<rparr>, v\<lparr>lastSecond := now e, frameCounter := 0\<rparr>)
      else (l, v))"

text \<open>
  The pacing sleep:
  \<^verbatim>\<open>sleepTime := int64(l.msPerFrame) - time.Since(start).Milliseconds()\<close>,
  \<^verbatim>\<open>if sleepTime > 0 { time.Sleep(time.Duration(sleepTime) * time.Millisecond) }\<close>.
\<close>

definition sleepTime :: "('w, 'v) Loop \<Rightarrow> int \<Rightarrow> ('w, 'v) env \<Rightarrow> int" where
  "sleepTime l start e = msPerFrame l - Milliseconds (Since e start)"

definition pace :: "('w, 'v) Loop \<Rightarrow> int \<Rightarrow> ('w, 'v) env \<Rightarrow> ('w, 'v) env" where
  "pace l start e =
     (if 0 < sleepTime l start e then Sleep (sleepTime l start e * Millisecond) e else e)"

text \<open>
  One pass of the \<^verbatim>\<open>default:\<close> branch. A panic in a callback leaves the pass at
  once. Statements between the callbacks take no time on the model's clock.
\<close>

definition iteration ::
  "('w, 'v) Loop \<Rightarrow> locals \<Rightarrow> ('w, 'v) env \<Rightarrow>
     'v panic option \<times> ('w, 'v) Loop \<times> locals \<times> ('w, 'v) env" where
  "iteration l v e =
     (let start = now e in
      case phases l v e of
        (Some p, l3, e3) \<Rightarrow> (Some p, l3, v, e3)
      | (None, l3, e3) \<Rightarrow>
          (let v1 = v\<lparr>lastFrame := now e3, frameCounter := frameCounter v + 1\<rparr>;
               m = meter l3 v1 e3
           in (None, fst m, snd m, pace (fst m) start e3)))"

text \<open>
  The \<^verbatim>\<open>for { select { case <-l.stopCh: return; default: ... } }\<close> of \<^verbatim>\<open>run\<close>.
  Receiving from a closed channel succeeds; from a nil or an open one on which nothing
  is sent it does not, and the default branch runs. The loop need not end: the result is
  \<open>None\<close> when it does not, and otherwise the panic that ended it, if any.
\<close>

partial_function (option) loop ::
  "('w, 'v) Loop \<Rightarrow> locals \<Rightarrow> ('w, 'v) env \<Rightarrow>
     ('v panic option \<times> ('w, 'v) Loop \<times> ('w, 'v) env) option" where
  "loop l v e =
     (if stopCh l = ClosedChan then Some (None, l, e)
      else case iteration l v e of
             (Some p, l', v', e') \<Rightarrow> Some (Some p, l', e')
           | (None, l', v', e') \<Rightarrow> loop l' v' e')"

definition run_locals :: "('w, 'v) env \<Rightarrow> locals" where
  "run_locals e = \<lparr>frameCounter = 0, lastFrame = now e, lastSecond = now e\<rparr>"

definition run ::
  "('w, 'v) Loop \<Rightarrow> ('w, 'v) env \<Rightarrow> ('v panic option \<times> ('w, 'v) Loop \<times> ('w, 'v) env) option" where
  "run l e = loop (l\<lparr>stopCh := OpenChan\<rparr>) (run_locals e) e"

text \<open>
  \<^verbatim>\<open>Start\<close>. The result is \<open>None\<close> when the call does not return; otherwise
  \<open>Inr\<close> of the returned error (\<open>None\<close> for nil), or \<open>Inl\<close> of the panic that
  leaves the call. The deferred function is installed when a recover function is
  registered at entry, and calls the one registered when it runs;
  \<^verbatim>\<open>recover()\<close> is non-nil exactly when the call is panicking, and the call then
  returns the zero value of its result, nil. A panic of the recover function itself
  leaves \<^verbatim>\<open>Start\<close>.
\<close>

definition Start ::
  "('w, 'v) Loop \<Rightarrow> ('w, 'v) env \<Rightarrow>
     (('v panic + error option) \<times> ('w, 'v) Loop \<times> ('w, 'v) env) option" where
  "Start l e =
     (if update l = None then Some (Inr (Some ERR_NO_UPDATE_FUNC), l, e)
      else if isRunning l then Some (Inr None, l, e)
      else case run (l\<lparr>isRunning := True\<rparr>) e of
             None \<Rightarrow> None
           | Some (None, l', e') \<Rightarrow> Some (Inr None, l', e')
           | Some (Some p, l', e') \<Rightarrow>
               (case recoverFunc l of
                  None \<Rightarrow> Some (Inl p, l', e')
                | Some _ \<Rightarrow>
                    (case recoverFunc l' of
                       None \<Rightarrow> Some (Inl NilFunctionCall, l', e')
                     | Some h \<Rightarrow>
                         (case invoke (EvRecover p) (h p) l' e' of
                            (None, l'', e'') \<Rightarrow> Some (Inr None, l'', e'')
                          | (Some p', l'', e'') \<Rightarrow> Some (Inl p', l'', e'')))))"

text \<open>
  \<open>passes n\<close> is the state after \<open>n\<close> complete passes of the loop, each entered
  with the stop channel not closed and none ended by a panic.
\<close>

fun passes ::
  "nat \<Rightarrow> ('w, 'v) Loop \<Rightarrow> locals \<Rightarrow> ('w, 'v) env \<Rightarrow>
     (('w, 'v) Loop \<times> locals \<times> ('w, 'v) env) option" where
  "passes 0 l v e = Some (l, v, e)"
| "passes (Suc n) l v e =
     (if stopCh l = ClosedChan then None
      else case iteration l v e of
             (None, l', v', e') \<Rightarrow> passes n l' v' e'
           | (Some p, l', v', e') \<Rightarrow> None)"

section \<open>Notions used in the statements\<close>

text \<open>The fields of a loop that neither a callback nor \<^verbatim>\<open>Stop\<close> writes.\<close>

definition config ::
  "('w, 'v) Loop \<Rightarrow>
     64 word \<times> int \<times> bool \<times> ('w, 'v) InputFunc option \<times> ('w, 'v) UpdateFunc option
     \<times> ('w, 'v) RenderFunc option \<times> ('w, 'v) RecoverFunc option \<times> int" where
  "config l = (targetFps l, msPerFrame l, isDebugMode l, input l, update l, render l,
               recoverFunc l, currentFps l)"

text \<open>The surroundings at the moment the input phase has returned, when the update is called.\<close>

definition after_input :: "('w, 'v) Loop \<Rightarrow> ('w, 'v) env \<Rightarrow> ('w, 'v) env" where
  "after_input l e = snd (snd (input_phase l e))"

text \<open>The durations of the sleeps recorded in a trace, in order.\<close>

fun sleeps :: "'v event list \<Rightarrow> Duration list" where
  "sleeps [] = []"
| "sleeps (EvSleep d # t) = d # sleeps t"
| "sleeps (x # t) = sleeps t"

text \<open>The event of a callback slot: none when the slot is nil.\<close>

definition slot_ev :: "'a option \<Rightarrow> 'v event \<Rightarrow> 'v event list" where
  "slot_ev s ev = (case s of None \<Rightarrow> [] | Some _ \<Rightarrow> [ev])"


text \<open>
  What one call of a caller-supplied function does to its surroundings: the clock
  advances by the time the call took, the caller's state is what the function left
  behind, and the call is logged.
\<close>

definition outcome :: "'v event \<Rightarrow> ('w \<Rightarrow> ('w, 'v) call) \<Rightarrow> ('w, 'v) env \<Rightarrow> ('w, 'v) env" where
  "outcome ev f e =
     e\<lparr>now := now e + int (took (f (world e))), world := world_after (f (world e)),
       trace := trace e @ [ev]\<rparr>"

text \<open>
  A callback slot that is called when registered: the surroundings afterwards (unchanged
  when the slot is nil), and the panic that the call raises, if any.
\<close>

definition slot_env ::
  "('w \<Rightarrow> ('w, 'v) call) option \<Rightarrow> 'v event \<Rightarrow> ('w, 'v) env \<Rightarrow> ('w, 'v) env" where
  "slot_env s ev e = (case s of None \<Rightarrow> e | Some f \<Rightarrow> outcome ev f e)"

definition slot_panic :: "('w \<Rightarrow> ('w, 'v) call) option \<Rightarrow> ('w, 'v) env \<Rightarrow> 'v panic option" where
  "slot_panic s e = (case s of None \<Rightarrow> None | Some f \<Rightarrow> map_option Raised (fault (f (world e))))"

text \<open>
  One pass as the specification describes it, written from its words and not from the
  source, to be compared with \<^verbatim>\<open>phases\<close>: the input callback is called if registered;
  then the update callback, if registered, with the time elapsed since \<^verbatim>\<open>lastFrame\<close>
  at the moment of the call; then the render callback, if registered. A callback that
  panics ends the pass: nothing is called after it. The result is the panic, if any, and
  the surroundings where the pass ends.
\<close>

definition spec_pass ::
  "('w, 'v) Loop \<Rightarrow> locals \<Rightarrow> ('w, 'v) env \<Rightarrow> 'v panic option \<times> ('w, 'v) env" where
  "spec_pass l v e =
     (let e1 = slot_env (input l) EvInput e;
          dt = Since e1 (lastFrame v);
          u = map_option (\<lambda>f. f dt) (update l);
          e2 = slot_env u (EvUpdate dt) e1;
          e3 = slot_env (render l) EvRender e2
      in case slot_panic (input l) e of
           Some p \<Rightarrow> (Some p, e1)
         | None \<Rightarrow>
             (case slot_panic u e1 of
                Some p \<Rightarrow> (Some p, e2)
              | None \<Rightarrow> (slot_panic (render l) e2, e3)))"

text \<open>
  \<^verbatim>\<open>Stop\<close> closes the channel only when the running flag is set, so it can be called
  when a set flag comes with an open channel. Inside a run the flag is set exactly as
  long as the channel is open.
\<close>

definition stoppable :: "('w, 'v) Loop \<Rightarrow> bool" where
  "stoppable l = (isRunning l \<longrightarrow> stopCh l = OpenChan)"

definition in_run :: "('w, 'v) Loop \<Rightarrow> bool" where
  "in_run l = (if isRunning l then stopCh l = OpenChan else stopCh l = ClosedChan)"

text \<open>
  The states of a loop a caller can hold between two calls of the package: a new loop, and what the
  setters, \<^verbatim>\<open>Stop\<close> and a \<^verbatim>\<open>Start\<close> that has returned or panicked leave behind.
\<close>

inductive api_state :: "('w, 'v) Loop \<Rightarrow> bool" where
  new: "api_state NewLoop"
| set_target_fps: "api_state l \<Longrightarrow> api_state (SetTargetFps l r)"
| set_debug: "api_state l \<Longrightarrow> api_state (SetDebug l b)"
| set_update: "api_state l \<Longrightarrow> api_state (SetUpdateFunc l u)"
| set_input: "api_state l \<Longrightarrow> api_state (SetInputFunc l i)"
| set_render: "api_state l \<Longrightarrow> api_state (SetRenderFunc l d)"
| set_recover: "api_state l \<Longrightarrow> api_state (SetRecoverFunc l h)"
| stop: "api_state l \<Longrightarrow> api_state (snd (Stop l))"
| start: "api_state l \<Longrightarrow> Start l e = Some (r, l', e') \<Longrightarrow> api_state l'"

text \<open>
  Concrete callbacks and concrete instances, on which the theorems are evaluated: a
  callback that takes a given time and counts its calls in the caller's state, one that
  panics with a given value, a recover function that returns, an update during which
  \<^verbatim>\<open>Stop\<close> is called, an update that succeeds once and then panics with 7, an update
  that adds its argument to the caller's state, an input that succeeds once and then
  panics with 7, and an update that takes 15999999 ns and calls \<^verbatim>\<open>Stop\<close>; the
  instances are built with the package's own setters.
\<close>

definition work :: "nat \<Rightarrow> nat \<Rightarrow> (nat, nat) call" where
  "work t w = \<lparr>took = t, stops = False, fault = None, world_after = Suc w\<rparr>"

definition failing :: "nat \<Rightarrow> nat \<Rightarrow> (nat, nat) call" where
  "failing x w = \<lparr>took = 0, stops = False, fault = Some x, world_after = w\<rparr>"

definition noted :: "nat panic \<Rightarrow> nat \<Rightarrow> (nat, nat) call" where
  "noted p w = \<lparr>took = 0, stops = False, fault = None, world_after = w\<rparr>"

definition demo :: "(nat, nat) Loop" where
  "demo = SetRenderFunc (SetUpdateFunc (SetInputFunc NewLoop (Some (work 1000000)))
            (Some (\<lambda>dt. work 2000000))) (Some (work 3000000))"

definition at_start :: "(nat, nat) env" where
  "at_start = \<lparr>now = 0, world = 0, trace = []\<rparr>"

definition quitting :: "Duration \<Rightarrow> nat \<Rightarrow> (nat, nat) call" where
  "quitting dt w = \<lparr>took = 1000000, stops = True, fault = None, world_after = Suc w\<rparr>"

definition flaky :: "Duration \<Rightarrow> nat \<Rightarrow> (nat, nat) call" where
  "flaky dt w = (if w = 0 then work 2000000 w else failing 7 w)"

definition crashing :: "(nat, nat) Loop" where
  "crashing = SetRecoverFunc (SetUpdateFunc NewLoop (Some flaky)) (Some noted)"

definition stamp :: "Duration \<Rightarrow> nat \<Rightarrow> (nat, nat) call" where
  "stamp dt w = \<lparr>took = 2000000, stops = False, fault = None, world_after = w + nat dt\<rparr>"

definition trip :: "nat \<Rightarrow> (nat, nat) call" where
  "trip w = (if w = 0 then work 1000000 w else failing 7 w)"

definition tripping :: "(nat, nat) Loop" where
  "tripping = SetRecoverFunc (SetRenderFunc (SetUpdateFunc (SetInputFunc NewLoop (Some trip))
                (Some stamp)) (Some (work 3000000))) (Some noted)"

definition lagging :: "Duration \<Rightarrow> nat \<Rightarrow> (nat, nat) call" where
  "lagging dt w = \<lparr>took = 15999999, stops = True, fault = None, world_after = Suc w\<rparr>"

section \<open>Rounding: the binary exponent and the error of one operation\<close>

lemma halvings_bracket:
  "1 \<le> x \<Longrightarrow> x < 2 ^ Suc n \<Longrightarrow>
     2 powi (halvings n x) \<le> x \<and> x < 2 powi (halvings n x + 1) \<and>
     0 \<le> halvings n x \<and> halvings n x \<le> int n"
proof (induction n arbitrary: x)
  case 0
  then show ?case by simp
next
  case (Suc n)
  show ?case
  proof (cases "x < 2")
    case True
    with Suc.prems show ?thesis by simp
  next
    case False
    with Suc.prems have h: "1 \<le> x / 2" "x / 2 < 2 ^ Suc n" by simp_all
    note ih = Suc.IH [OF h]
    have a: "(2::rat) powi (1 + halvings n (x / 2)) = 2 * 2 powi (halvings n (x / 2))"
      by (simp add: power_int_add)
    have b: "(2::rat) powi (1 + halvings n (x / 2) + 1) = 2 * 2 powi (halvings n (x / 2) + 1)"
      by (simp add: power_int_add)
    from ih False show ?thesis
      by (simp only: halvings.simps if_False a b) (simp add: field_simps)
  qed
qed

lemma doublings_bracket:
  "2 powi (- int n) \<le> x \<Longrightarrow> x < 2 \<Longrightarrow>
     2 powi (doublings n x) \<le> x \<and> x < 2 powi (doublings n x + 1) \<and>
     - int n \<le> doublings n x \<and> doublings n x \<le> 0"
proof (induction n arbitrary: x)
  case 0
  then show ?case by simp
next
  case (Suc n)
  show ?case
  proof (cases "1 \<le> x")
    case True
    with Suc.prems show ?thesis by simp
  next
    case False
    have "(2::rat) powi (- int (Suc n) + 1) = 2 * 2 powi (- int (Suc n))"
      by (rule power_int_add_1') simp
    moreover have "- int (Suc n) + 1 = - int n" by simp
    ultimately have "(2::rat) powi (- int n) = 2 * 2 powi (- int (Suc n))"
      by (simp only:)
    with Suc.prems False have h: "2 powi (- int n) \<le> x * 2" "x * 2 < 2" by simp_all
    note ih = Suc.IH [OF h]
    define d where "d = doublings n (x * 2)"
    have a: "(2::rat) powi d = 2 * 2 powi (d - 1)"
      using power_int_add_1' [of "2::rat" "d - 1"] by simp
    have b: "(2::rat) powi (d + 1) = 2 * 2 powi d"
      by (rule power_int_add_1') simp
    from ih have "2 * 2 powi (d - 1) \<le> x * 2" "x * 2 < 2 * 2 powi d"
      unfolding d_def [symmetric] using a b by simp_all
    then have "2 powi (d - 1) \<le> x" "x < 2 powi (d - 1 + 1)" by simp_all
    moreover from ih have "- int (Suc n) \<le> d - 1" "d - 1 \<le> 0"
      unfolding d_def [symmetric] by simp_all
    moreover have "doublings (Suc n) x = d - 1" using False by (simp add: d_def)
    ultimately show ?thesis by (simp only:)
  qed
qed

lemma binexp_bracket:
  assumes "2 powi (- int emin) \<le> x" "x < 2 ^ Suc emax"
  shows "2 powi (binexp emax emin x) \<le> x \<and> x < 2 powi (binexp emax emin x + 1) \<and>
         - int emin \<le> binexp emax emin x \<and> binexp emax emin x \<le> int emax"
proof (cases "1 \<le> x")
  case True
  from halvings_bracket [OF True assms(2)] True show ?thesis
    by (simp add: binexp_def)
next
  case False
  then have "x < 2" by simp
  from doublings_bracket [OF assms(1) this] False show ?thesis
    by (simp add: binexp_def)
qed

lemma bracket_unique:
  fixes x :: rat
  assumes "2 powi e \<le> x" "x < 2 powi (e + 1)" "2 powi e' \<le> x" "x < 2 powi (e' + 1)"
  shows "e = e'"
proof -
  have "e < e' + 1"
  proof (rule ccontr)
    assume "\<not> e < e' + 1"
    then have "(2::rat) powi (e' + 1) \<le> 2 powi e" by (intro power_int_increasing) simp_all
    with assms show False by simp
  qed
  moreover have "e' < e + 1"
  proof (rule ccontr)
    assume "\<not> e' < e + 1"
    then have "(2::rat) powi (e + 1) \<le> 2 powi e'" by (intro power_int_increasing) simp_all
    with assms show False by simp
  qed
  ultimately show ?thesis by simp
qed

lemma binexp_eq:
  assumes "2 powi e \<le> x" "x < 2 powi (e + 1)" "- int emin \<le> e" "e \<le> int emax"
  shows "binexp emax emin x = e"
proof -
  have "(2::rat) powi (- int emin) \<le> 2 powi e"
    using assms(3) by (intro power_int_increasing) simp_all
  then have lo: "2 powi (- int emin) \<le> x" using assms(1) by simp
  have "(2::rat) powi (e + 1) \<le> 2 powi (int (Suc emax))"
    using assms(4) by (intro power_int_increasing) simp_all
  also have "(2::rat) powi (int (Suc emax)) = 2 ^ Suc emax" by (rule power_int_of_nat)
  finally have hi: "x < 2 ^ Suc emax" using assms(2) by linarith
  from binexp_bracket [OF lo hi] assms(1,2) show ?thesis
    by (blast intro: bracket_unique)
qed

lemma round_even_err: "\<bar>of_int (round_even q) - q\<bar> \<le> 1 / 2"
proof -
  have "of_int \<lfloor>q\<rfloor> \<le> q" "q < of_int \<lfloor>q\<rfloor> + 1" by linarith+
  then show ?thesis by (auto simp: round_even_def Let_def)
qed

lemma round_even_ge: "of_int n \<le> q \<Longrightarrow> n \<le> round_even q"
proof -
  assume "of_int n \<le> q"
  then have "n \<le> \<lfloor>q\<rfloor>" by (simp add: le_floor_iff)
  then show ?thesis by (auto simp: round_even_def Let_def)
qed

lemma fl_pos_at:
  assumes "2 powi e \<le> x" "x < 2 powi (e + 1)" "- int emin \<le> e" "e \<le> int emax"
  shows "fl_pos p emax emin x =
           of_int (round_even (x / 2 powi (e - (int p - 1)))) * 2 powi (e - (int p - 1))"
  by (simp add: fl_pos_def Let_def binexp_eq [OF assms])

lemma fl_pos_err:
  assumes "2 powi e \<le> x" "x < 2 powi (e + 1)" "- int emin \<le> e" "e \<le> int emax"
  shows "\<bar>fl_pos p emax emin x - x\<bar> \<le> 2 powi (e - int p)"
proof -
  define u :: rat where "u = 2 powi (e - (int p - 1))"
  have u: "0 < u" by (simp add: u_def)
  have "e - (int p - 1) = e - int p + 1" by simp
  then have "u = 2 * 2 powi (e - int p)"
    unfolding u_def using power_int_add_1' [of "2::rat" "e - int p"] by (simp only:) simp
  then have half: "u / 2 = 2 powi (e - int p)" by simp
  have eq: "fl_pos p emax emin x = of_int (round_even (x / u)) * u"
    unfolding u_def by (rule fl_pos_at [OF assms])
  have "x / u * u = x" using u by simp
  then have "fl_pos p emax emin x - x = (of_int (round_even (x / u)) - x / u) * u"
    by (simp add: eq left_diff_distrib)
  then have "\<bar>fl_pos p emax emin x - x\<bar> = \<bar>of_int (round_even (x / u)) - x / u\<bar> * u"
    using u by (simp add: abs_mult)
  also have "\<dots> \<le> (1 / 2) * u"
    using u round_even_err [of "x / u"] by (intro mult_right_mono) simp_all
  finally show ?thesis using half by simp
qed

lemma fl_pos_rel:
  assumes "2 powi e \<le> x" "x < 2 powi (e + 1)" "- int emin \<le> e" "e \<le> int emax"
  shows "\<bar>fl_pos p emax emin x - x\<bar> \<le> x / 2 ^ p"
proof -
  have "(2::rat) powi (e - int p) = 2 powi e / 2 ^ p"
    by (simp add: power_int_diff)
  also have "\<dots> \<le> x / 2 ^ p"
    using assms(1) by (simp add: divide_right_mono)
  finally show ?thesis using fl_pos_err [OF assms, of p] by linarith
qed

lemma fl_pos_lower:
  assumes "2 powi e \<le> x" "x < 2 powi (e + 1)" "- int emin \<le> e" "e \<le> int emax" "0 < p"
  shows "2 powi e \<le> fl_pos p emax emin x"
proof -
  define u :: rat where "u = 2 powi (e - (int p - 1))"
  have u: "0 < u" by (simp add: u_def)
  have "int p - 1 = int (p - 1)" using assms(5) by simp
  then have "u = 2 powi (e - int (p - 1))" by (simp only: u_def)
  moreover have "(2::rat) powi (int (p - 1) + (e - int (p - 1))) =
      2 powi (int (p - 1)) * 2 powi (e - int (p - 1))"
    by (rule power_int_add) simp
  moreover have "int (p - 1) + (e - int (p - 1)) = e" by simp
  ultimately have eu: "(2::rat) powi e = of_int (2 ^ (p - 1)) * u"
    by (simp only: power_int_of_nat) simp
  then have "of_int (2 ^ (p - 1)) \<le> x / u"
    using assms(1) u by (simp add: pos_le_divide_eq)
  then have "2 ^ (p - 1) \<le> round_even (x / u)" by (rule round_even_ge)
  then have "(of_int (2 ^ (p - 1)) :: rat) \<le> of_int (round_even (x / u))"
    by (simp only: of_int_le_iff)
  then have "of_int (2 ^ (p - 1)) * u \<le> of_int (round_even (x / u)) * u"
    using u by (intro mult_right_mono) simp_all
  moreover have "fl_pos p emax emin x = of_int (round_even (x / u)) * u"
    unfolding u_def by (rule fl_pos_at [OF assms(1-4)])
  ultimately show ?thesis by (simp only: eu)
qed

lemma fl_pos_nonneg: "0 \<le> x \<Longrightarrow> 0 \<le> fl_pos p emax emin x"
proof -
  assume x: "0 \<le> x"
  define u :: rat where "u = 2 powi (binexp emax emin x - (int p - 1))"
  have u: "0 < u" by (simp add: u_def)
  then have "(of_int 0 :: rat) \<le> x / u" using x by simp
  then have "0 \<le> round_even (x / u)" by (rule round_even_ge)
  then have "(0::rat) \<le> of_int (round_even (x / u)) * u" using u by simp
  moreover have "fl_pos p emax emin x = of_int (round_even (x / u)) * u"
    by (simp add: fl_pos_def Let_def u_def)
  ultimately show ?thesis by (simp only:)
qed

lemma fl_nonneg: "0 \<le> x \<Longrightarrow> 0 \<le> fl p emax emin x"
  by (simp add: fl_def fl_pos_nonneg)

lemma fl_nonpos: "x \<le> 0 \<Longrightarrow> fl p emax emin x \<le> 0"
  by (simp add: fl_def fl_pos_nonneg)

lemma fl_rel:
  assumes "2 powi (- int emin) \<le> x" "x < 2 ^ Suc emax"
  shows "\<bar>fl p emax emin x - x\<bar> \<le> x / 2 ^ p"
proof -
  have "(0::rat) < 2 powi (- int emin)" by simp
  with assms(1) have x: "0 < x" by linarith
  from binexp_bracket [OF assms] have
    "\<bar>fl_pos p emax emin x - x\<bar> \<le> x / 2 ^ p"
    by (intro fl_pos_rel [where e = "binexp emax emin x"]) simp_all
  with x show ?thesis by (simp add: fl_def)
qed

lemma fl_lower:
  assumes "2 powi k \<le> x" "x < 2 ^ Suc emax" "- int emin \<le> k" "0 < p"
  shows "2 powi k \<le> fl p emax emin x"
proof -
  have "(0::rat) < 2 powi k" by simp
  with assms(1) have x: "0 < x" by linarith
  have "(2::rat) powi (- int emin) \<le> 2 powi k"
    using assms(3) by (intro power_int_increasing) simp_all
  with assms(1) have lo: "2 powi (- int emin) \<le> x" by simp
  define e where "e = binexp emax emin x"
  from binexp_bracket [OF lo assms(2)] have
    br: "2 powi e \<le> x" "x < 2 powi (e + 1)" "- int emin \<le> e" "e \<le> int emax"
    by (simp_all add: e_def)
  have "k < e + 1"
  proof (rule ccontr)
    assume "\<not> k < e + 1"
    then have "(2::rat) powi (e + 1) \<le> 2 powi k" by (intro power_int_increasing) simp_all
    with br(2) assms(1) show False by simp
  qed
  then have "(2::rat) powi k \<le> 2 powi e" by (intro power_int_increasing) simp_all
  also have "\<dots> \<le> fl_pos p emax emin x" by (rule fl_pos_lower [OF br assms(4)])
  finally show ?thesis using x by (simp add: fl_def)
qed

section \<open>The frame budget in whole milliseconds\<close>

lemma float32_rel:
  assumes "1 / 2 ^ 126 \<le> x" "x < 2 ^ 128"
  shows "x * (16777215 / 16777216) \<le> float32 x \<and> float32 x \<le> x * (16777217 / 16777216)"
proof -
  have "(2::rat) powi (- int 126) = 1 / 2 ^ 126"
    by (simp add: power_int_minus_divide)
  with assms(1) have lo: "2 powi (- int 126) \<le> x" by (simp only:)
  have hi: "x < 2 ^ Suc 127" using assms(2) by simp
  have "\<bar>float32 x - x\<bar> \<le> x / 2 ^ 24"
    unfolding float32_def by (rule fl_rel [OF lo hi])
  then have "\<bar>float32 x - x\<bar> \<le> x / 16777216" by simp
  then show ?thesis by linarith
qed

lemma budget_product_bounds:
  fixes a b c r :: rat
  assumes r: "1 \<le> r"
    and a: "r * (16777215 / 16777216) \<le> a" "a \<le> r * (16777217 / 16777216)"
    and b: "(1 / a) * (16777215 / 16777216) \<le> b" "b \<le> (1 / a) * (16777217 / 16777216)"
    and c: "b * 1000 * (16777215 / 16777216) \<le> c" "c \<le> b * 1000 * (16777217 / 16777216)"
  shows "999 < c * r \<and> c * r < 1001"
proof -
  from r a(1) have apos: "0 < a" by linarith
  then have inv: "0 < 1 / a" by simp
  then have "0 < (1 / a) * (16777215 / 16777216)" by simp
  with b(1) have bpos: "0 < b" by linarith
  have ba_lo: "16777215 / 16777216 \<le> b * a"
    using b(1) apos by (simp add: field_simps)
  have ba_hi: "b * a \<le> 16777217 / 16777216"
    using b(2) apos by (simp add: field_simps)
  have "b * (r * (16777215 / 16777216)) \<le> b * a"
    using a(1) bpos by (intro mult_left_mono) simp_all
  with ba_hi have br_hi: "(b * r) * (16777215 / 16777216) \<le> 16777217 / 16777216"
    by (simp add: mult.assoc)
  have "b * a \<le> b * (r * (16777217 / 16777216))"
    using a(2) bpos by (intro mult_left_mono) simp_all
  with ba_lo have br_lo: "16777215 / 16777216 \<le> (b * r) * (16777217 / 16777216)"
    by (simp add: mult.assoc)
  have "c * r \<le> (b * 1000 * (16777217 / 16777216)) * r"
    using c(2) r by (intro mult_right_mono) simp_all
  then have cr_hi: "c * r \<le> (b * r) * (1000 * 16777217 / 16777216)"
    by (simp add: algebra_simps)
  have "(b * 1000 * (16777215 / 16777216)) * r \<le> c * r"
    using c(1) r by (intro mult_right_mono) simp_all
  then have cr_lo: "(b * r) * (1000 * 16777215 / 16777216) \<le> c * r"
    by (simp add: algebra_simps)
  from br_hi br_lo cr_hi cr_lo show ?thesis by linarith
qed

lemma float32_at:
  assumes "2 powi e \<le> x" "x < 2 powi (e + 1)" "- 126 \<le> e" "e \<le> 127"
  shows "float32 x = of_int (round_even (x / 2 powi (e - 23))) * 2 powi (e - 23)"
proof -
  have "(0::rat) < 2 powi e" by simp
  with assms(1) have "0 < x" by linarith
  moreover have "fl_pos 24 127 126 x =
      of_int (round_even (x / 2 powi (e - (int 24 - 1)))) * 2 powi (e - (int 24 - 1))"
    using assms by (intro fl_pos_at) simp_all
  ultimately show ?thesis by (simp add: float32_def fl_def)
qed

lemma floor_numeral_div:
  "\<lfloor>numeral a / numeral b :: rat\<rfloor> = numeral a div numeral b"
  using floor_divide_of_int_eq [of "numeral a" "numeral b", where ?'a = rat] by simp

lemma budget_1: "msPerFrame_of 1 = 1000"
proof -
  have a: "float32 1 = 1"
    by (simp add: float32_at [where e = "0"] round_even_def Let_def floor_numeral_div)
  have b: "float32 (1) = 1"
    by (simp add: float32_at [where e = "0"] round_even_def Let_def floor_numeral_div)
  have c: "float32 (1000) = 1000"
    by (simp add: float32_at [where e = "9"] round_even_def Let_def floor_numeral_div)
  show ?thesis by (simp add: msPerFrame_of_def go_int_def a b c)
qed

lemma budget_2: "msPerFrame_of 2 = 500"
proof -
  have a: "float32 2 = 2"
    by (simp add: float32_at [where e = "1"] round_even_def Let_def floor_numeral_div)
  have b: "float32 (1 / 2) = 1 / 2"
    by (simp add: float32_at [where e = "- 1"] round_even_def Let_def floor_numeral_div)
  have c: "float32 (500) = 500"
    by (simp add: float32_at [where e = "8"] round_even_def Let_def floor_numeral_div)
  show ?thesis by (simp add: msPerFrame_of_def go_int_def a b c)
qed

lemma budget_4: "msPerFrame_of 4 = 250"
proof -
  have a: "float32 4 = 4"
    by (simp add: float32_at [where e = "2"] round_even_def Let_def floor_numeral_div)
  have b: "float32 (1 / 4) = 1 / 4"
    by (simp add: float32_at [where e = "- 2"] round_even_def Let_def floor_numeral_div)
  have c: "float32 (250) = 250"
    by (simp add: float32_at [where e = "7"] round_even_def Let_def floor_numeral_div)
  show ?thesis by (simp add: msPerFrame_of_def go_int_def a b c)
qed

lemma budget_5: "msPerFrame_of 5 = 200"
proof -
  have a: "float32 5 = 5"
    by (simp add: float32_at [where e = "2"] round_even_def Let_def floor_numeral_div)
  have b: "float32 (1 / 5) = 13421773 / 67108864"
    by (simp add: float32_at [where e = "- 3"] round_even_def Let_def floor_numeral_div)
  have c: "float32 (1677721625 / 8388608) = 200"
    by (simp add: float32_at [where e = "7"] round_even_def Let_def floor_numeral_div)
  show ?thesis by (simp add: msPerFrame_of_def go_int_def a b c)
qed

lemma budget_8: "msPerFrame_of 8 = 125"
proof -
  have a: "float32 8 = 8"
    by (simp add: float32_at [where e = "3"] round_even_def Let_def floor_numeral_div)
  have b: "float32 (1 / 8) = 1 / 8"
    by (simp add: float32_at [where e = "- 3"] round_even_def Let_def floor_numeral_div)
  have c: "float32 (125) = 125"
    by (simp add: float32_at [where e = "6"] round_even_def Let_def floor_numeral_div)
  show ?thesis by (simp add: msPerFrame_of_def go_int_def a b c)
qed

lemma budget_10: "msPerFrame_of 10 = 100"
proof -
  have a: "float32 10 = 10"
    by (simp add: float32_at [where e = "3"] round_even_def Let_def floor_numeral_div)
  have b: "float32 (1 / 10) = 13421773 / 134217728"
    by (simp add: float32_at [where e = "- 4"] round_even_def Let_def floor_numeral_div)
  have c: "float32 (1677721625 / 16777216) = 100"
    by (simp add: float32_at [where e = "6"] round_even_def Let_def floor_numeral_div)
  show ?thesis by (simp add: msPerFrame_of_def go_int_def a b c)
qed

lemma budget_20: "msPerFrame_of 20 = 50"
proof -
  have a: "float32 20 = 20"
    by (simp add: float32_at [where e = "4"] round_even_def Let_def floor_numeral_div)
  have b: "float32 (1 / 20) = 13421773 / 268435456"
    by (simp add: float32_at [where e = "- 5"] round_even_def Let_def floor_numeral_div)
  have c: "float32 (1677721625 / 33554432) = 50"
    by (simp add: float32_at [where e = "5"] round_even_def Let_def floor_numeral_div)
  show ?thesis by (simp add: msPerFrame_of_def go_int_def a b c)
qed

lemma budget_25: "msPerFrame_of 25 = 40"
proof -
  have a: "float32 25 = 25"
    by (simp add: float32_at [where e = "4"] round_even_def Let_def floor_numeral_div)
  have b: "float32 (1 / 25) = 5368709 / 134217728"
    by (simp add: float32_at [where e = "- 5"] round_even_def Let_def floor_numeral_div)
  have c: "float32 (671088625 / 16777216) = 40"
    by (simp add: float32_at [where e = "5"] round_even_def Let_def floor_numeral_div)
  show ?thesis by (simp add: msPerFrame_of_def go_int_def a b c)
qed

lemma budget_40: "msPerFrame_of 40 = 25"
proof -
  have a: "float32 40 = 40"
    by (simp add: float32_at [where e = "5"] round_even_def Let_def floor_numeral_div)
  have b: "float32 (1 / 40) = 13421773 / 536870912"
    by (simp add: float32_at [where e = "- 6"] round_even_def Let_def floor_numeral_div)
  have c: "float32 (1677721625 / 67108864) = 25"
    by (simp add: float32_at [where e = "4"] round_even_def Let_def floor_numeral_div)
  show ?thesis by (simp add: msPerFrame_of_def go_int_def a b c)
qed

lemma budget_50: "msPerFrame_of 50 = 20"
proof -
  have a: "float32 50 = 50"
    by (simp add: float32_at [where e = "5"] round_even_def Let_def floor_numeral_div)
  have b: "float32 (1 / 50) = 5368709 / 268435456"
    by (simp add: float32_at [where e = "- 6"] round_even_def Let_def floor_numeral_div)
  have c: "float32 (671088625 / 33554432) = 20"
    by (simp add: float32_at [where e = "4"] round_even_def Let_def floor_numeral_div)
  show ?thesis by (simp add: msPerFrame_of_def go_int_def a b c)
qed

lemma budget_100: "msPerFrame_of 100 = 10"
proof -
  have a: "float32 100 = 100"
    by (simp add: float32_at [where e = "6"] round_even_def Let_def floor_numeral_div)
  have b: "float32 (1 / 100) = 5368709 / 536870912"
    by (simp add: float32_at [where e = "- 7"] round_even_def Let_def floor_numeral_div)
  have c: "float32 (671088625 / 67108864) = 10"
    by (simp add: float32_at [where e = "3"] round_even_def Let_def floor_numeral_div)
  show ?thesis by (simp add: msPerFrame_of_def go_int_def a b c)
qed

lemma budget_125: "msPerFrame_of 125 = 8"
proof -
  have a: "float32 125 = 125"
    by (simp add: float32_at [where e = "6"] round_even_def Let_def floor_numeral_div)
  have b: "float32 (1 / 125) = 8589935 / 1073741824"
    by (simp add: float32_at [where e = "- 7"] round_even_def Let_def floor_numeral_div)
  have c: "float32 (1073741875 / 134217728) = 8"
    by (simp add: float32_at [where e = "3"] round_even_def Let_def floor_numeral_div)
  show ?thesis by (simp add: msPerFrame_of_def go_int_def a b c)
qed

lemma budget_200: "msPerFrame_of 200 = 5"
proof -
  have a: "float32 200 = 200"
    by (simp add: float32_at [where e = "7"] round_even_def Let_def floor_numeral_div)
  have b: "float32 (1 / 200) = 5368709 / 1073741824"
    by (simp add: float32_at [where e = "- 8"] round_even_def Let_def floor_numeral_div)
  have c: "float32 (671088625 / 134217728) = 5"
    by (simp add: float32_at [where e = "2"] round_even_def Let_def floor_numeral_div)
  show ?thesis by (simp add: msPerFrame_of_def go_int_def a b c)
qed

lemma budget_250: "msPerFrame_of 250 = 4"
proof -
  have a: "float32 250 = 250"
    by (simp add: float32_at [where e = "7"] round_even_def Let_def floor_numeral_div)
  have b: "float32 (1 / 250) = 8589935 / 2147483648"
    by (simp add: float32_at [where e = "- 8"] round_even_def Let_def floor_numeral_div)
  have c: "float32 (1073741875 / 268435456) = 4"
    by (simp add: float32_at [where e = "2"] round_even_def Let_def floor_numeral_div)
  show ?thesis by (simp add: msPerFrame_of_def go_int_def a b c)
qed

lemma budget_500: "msPerFrame_of 500 = 2"
proof -
  have a: "float32 500 = 500"
    by (simp add: float32_at [where e = "8"] round_even_def Let_def floor_numeral_div)
  have b: "float32 (1 / 500) = 8589935 / 4294967296"
    by (simp add: float32_at [where e = "- 9"] round_even_def Let_def floor_numeral_div)
  have c: "float32 (1073741875 / 536870912) = 2"
    by (simp add: float32_at [where e = "1"] round_even_def Let_def floor_numeral_div)
  show ?thesis by (simp add: msPerFrame_of_def go_int_def a b c)
qed

lemma budget_1000: "msPerFrame_of 1000 = 1"
proof -
  have a: "float32 1000 = 1000"
    by (simp add: float32_at [where e = "9"] round_even_def Let_def floor_numeral_div)
  have b: "float32 (1 / 1000) = 8589935 / 8589934592"
    by (simp add: float32_at [where e = "- 10"] round_even_def Let_def floor_numeral_div)
  have c: "float32 (1073741875 / 1073741824) = 1"
    by (simp add: float32_at [where e = "0"] round_even_def Let_def floor_numeral_div)
  show ?thesis by (simp add: msPerFrame_of_def go_int_def a b c)
qed

lemma small_divisors_1000:
  fixes k :: int
  assumes "1 \<le> k" "k \<le> 31" "k dvd 1000"
  shows "k \<in> {1, 2, 4, 5, 8, 10, 20, 25}"
proof -
  from assms(1,2) have "k \<in> {1..31}" by simp
  also have "{1..31::int} = set [1..31]" by simp
  finally have "k \<in> set [1..31]" .
  then have "k \<in> {1, 2, 3, 4, 5, 6, 7, 8, 9, 10, 11, 12, 13, 14, 15, 16, 17, 18, 19, 20,
               21, 22, 23, 24, 25, 26, 27, 28, 29, 30, 31}"
    by (simp add: upto.simps)
  with assms(3) show ?thesis by auto
qed

lemma divisors_1000:
  fixes r :: int
  assumes "1 \<le> r" "r dvd 1000"
  shows "r \<in> {1, 2, 4, 5, 8, 10, 20, 25, 40, 50, 100, 125, 200, 250, 500, 1000}"
proof -
  from assms(2) obtain k where k: "1000 = r * k" by (auto simp: dvd_def)
  have kdvd: "k dvd 1000" by (subst k) (rule dvd_triv_right)
  have kpos: "1 \<le> k"
  proof (rule ccontr)
    assume "\<not> 1 \<le> k"
    then have "k \<le> 0" by simp
    with assms(1) have "r * k \<le> 0" by (simp add: mult_le_0_iff)
    with k show False by simp
  qed
  have "r \<le> 31 \<or> k \<le> 31"
  proof (rule ccontr)
    assume "\<not> (r \<le> 31 \<or> k \<le> 31)"
    then have "32 \<le> r" "32 \<le> k" by simp_all
    then have "32 * 32 \<le> r * k" by (intro mult_mono) simp_all
    with k show False by simp
  qed
  then show ?thesis
  proof
    assume "r \<le> 31"
    from small_divisors_1000 [OF assms(1) this assms(2)] show ?thesis
      by auto
  next
    assume "k \<le> 31"
    from small_divisors_1000 [OF kpos this kdvd] k show ?thesis
      by auto
  qed
qed

lemma budget_bounds:
  fixes r :: int
  assumes "1 \<le> r" "r < 2 ^ 63"
  defines "c \<equiv> float32 (float32 (1 / float32 (of_int r)) * 1000)"
  shows "999 < c * of_int r \<and> c * of_int r < 1001 \<and> 0 \<le> c"
proof -
  define x :: rat where "x = of_int r"
  define a where "a = float32 x"
  define b where "b = float32 (1 / a)"
  have x1: "1 \<le> x" using assms(1) by (simp add: x_def)
  have "of_int r < (of_int (2 ^ 63) :: rat)" using assms(2) by (simp only: of_int_less_iff)
  then have x2: "x < 2 ^ 63" by (simp add: x_def)
  have a: "x * (16777215 / 16777216) \<le> a" "a \<le> x * (16777217 / 16777216)"
    unfolding a_def using x1 x2 by (intro float32_rel [THEN conjunct1] float32_rel [THEN conjunct2]; simp)+
  from a x1 x2 have a1: "1 / 2 \<le> a" and a2: "a < 2 ^ 64" by simp_all
  then have ia: "1 / 2 ^ 64 < 1 / a" "1 / a \<le> 2"
    by (simp_all add: field_simps)
  have b: "(1 / a) * (16777215 / 16777216) \<le> b" "b \<le> (1 / a) * (16777217 / 16777216)"
    unfolding b_def using ia by (intro float32_rel [THEN conjunct1] float32_rel [THEN conjunct2]; simp)+
  from b ia have b1: "1 / 2 ^ 65 \<le> b" and b2: "b \<le> 4" by simp_all
  have c: "b * 1000 * (16777215 / 16777216) \<le> c" "c \<le> b * 1000 * (16777217 / 16777216)"
    unfolding c_def a_def [symmetric] x_def [symmetric] b_def [symmetric] using b1 b2
    by (intro float32_rel [THEN conjunct1] float32_rel [THEN conjunct2]; simp)+
  from b1 have "0 \<le> b * 1000" by simp
  then have "0 \<le> fl 24 127 126 (b * 1000)" by (rule fl_nonneg)
  then have "0 \<le> c" by (simp add: c_def a_def b_def x_def float32_def)
  with budget_product_bounds [OF x1 a b c] show ?thesis by (simp add: x_def)
qed

lemma msPerFrame_of_eq_div:
  fixes r :: int
  assumes "1 \<le> r" "r < 2 ^ 63"
  shows "msPerFrame_of r = 1000 div r"
proof (cases "r dvd 1000")
  case True
  from divisors_1000 [OF assms(1) True] show ?thesis
    by (auto simp: budget_1 budget_2 budget_4 budget_5 budget_8 budget_10 budget_20 budget_25
        budget_40 budget_50 budget_100 budget_125 budget_200 budget_250 budget_500 budget_1000)
next
  case False
  define c where "c = float32 (float32 (1 / float32 (of_int r)) * 1000)"
  from budget_bounds [OF assms] have
    lo: "999 < c * of_int r" and hi: "c * of_int r < 1001" and c0: "0 \<le> c"
    by (simp_all add: c_def)
  have rpos: "(0::rat) < of_int r" using assms(1) by simp
  define n where "n = 1000 div r"
  define m where "m = 1000 mod r"
  have "0 \<le> m" "m < r" "m \<noteq> 0"
    using False assms(1) by (simp_all add: m_def dvd_eq_mod_eq_0)
  then have m: "1 \<le> m" "m < r" by simp_all
  have nm: "n * r + m = 1000" by (simp add: n_def m_def)
  then have "n * r \<le> 999" "1001 \<le> (n + 1) * r" using m by (simp_all add: algebra_simps)
  then have "(of_int (n * r) :: rat) \<le> of_int 999" "(of_int 1001 :: rat) \<le> of_int ((n + 1) * r)"
    by (simp_all only: of_int_le_iff)
  then have "of_int n * of_int r < c * of_int r" "c * of_int r < (of_int n + 1) * of_int r"
    using lo hi by simp_all
  then have "of_int n < c" "c < of_int n + 1"
    using rpos by (simp_all only: mult_less_cancel_right_pos)
  then have "\<lfloor>c\<rfloor> = n" by (intro floor_unique) simp_all
  with c0 show ?thesis by (simp add: msPerFrame_of_def go_int_def c_def n_def)
qed

section \<open>Durations in seconds and milliseconds\<close>

lemma float64_rel:
  assumes "1 / 2 ^ 40 \<le> x" "x < 2 ^ 70"
  shows "x * (9007199254740991 / 9007199254740992) \<le> float64 x
       \<and> float64 x \<le> x * (9007199254740993 / 9007199254740992)"
proof -
  have "(2::rat) powi (- int 1022) \<le> 2 powi (- 40)"
    by (intro power_int_increasing) simp_all
  also have "(2::rat) powi (- 40) = 1 / 2 ^ 40"
    by (simp add: power_int_minus_divide)
  finally have lo: "2 powi (- int 1022) \<le> x" using assms(1) by linarith
  have "(2::rat) ^ 70 \<le> 2 ^ Suc 1023" by (intro power_increasing) simp_all
  with assms(2) have hi: "x < 2 ^ Suc 1023" by linarith
  have "\<bar>float64 x - x\<bar> \<le> x / 2 ^ 53"
    unfolding float64_def by (rule fl_rel [OF lo hi])
  then have "\<bar>float64 x - x\<bar> \<le> x / 9007199254740992" by simp
  then show ?thesis by linarith
qed

lemma float64_ge_one:
  assumes "1 \<le> x" "x < 2 ^ 70"
  shows "1 \<le> float64 x"
proof -
  have "(2::rat) ^ 70 \<le> 2 ^ Suc 1023" by (intro power_increasing) simp_all
  with assms(2) have hi: "x < 2 ^ Suc 1023" by linarith
  have "2 powi 0 \<le> fl 53 1023 1022 x"
    using assms(1) hi by (intro fl_lower) simp_all
  then show ?thesis by (simp add: float64_def)
qed

lemma float64_zero: "float64 0 = 0"
  by (simp add: float64_def fl_def)

lemma float64_nat_upper:
  assumes "0 \<le> n" "n < 2 ^ 63"
  shows "0 \<le> float64 (of_int n) \<and> float64 (of_int n) \<le> of_int n * (9007199254740993 / 9007199254740992)"
proof (cases "n = 0")
  case True
  then show ?thesis by (simp add: float64_zero)
next
  case False
  with assms(1) have "1 \<le> n" by simp
  then have x1: "(1::rat) \<le> of_int n" by simp
  have "of_int n < (of_int (2 ^ 63) :: rat)" using assms(2) by (simp only: of_int_less_iff)
  then have x2: "(of_int n :: rat) < 2 ^ 70" by simp
  have "1 / 2 ^ 40 \<le> (of_int n :: rat)" using x1 by simp
  from float64_rel [OF this x2] x1 show ?thesis by simp
qed

lemma float64_small_upper:
  assumes "1 / 2 ^ 40 \<le> x" "x \<le> 4"
  shows "0 \<le> float64 x \<and> float64 x \<le> x * (9007199254740993 / 9007199254740992)
         \<and> x * (9007199254740991 / 9007199254740992) \<le> float64 x"
proof -
  have "x < 2 ^ 70" using assms(2) by simp
  from float64_rel [OF assms(1) this] assms(1) show ?thesis by simp
qed

lemma tdiv_nonneg: "0 \<le> d \<Longrightarrow> 0 < b \<Longrightarrow> tdiv d b = d div b"
  by (cases "d = 0") (simp_all add: tdiv_def)

lemma tmod_nonneg: "0 \<le> d \<Longrightarrow> 0 < b \<Longrightarrow> tmod d b = d mod b"
  by (simp add: tmod_def tdiv_nonneg minus_mult_div_eq_mod)

lemma tdiv_neg: "d < 0 \<Longrightarrow> 0 < b \<Longrightarrow> tdiv d b = - ((- d) div b)"
  by (simp add: tdiv_def)

lemma tmod_neg: "d < 0 \<Longrightarrow> 0 < b \<Longrightarrow> tmod d b = - ((- d) mod b)"
proof -
  assume h: "d < 0" "0 < b"
  have "(- d) mod b = - d - b * ((- d) div b)" by (simp add: minus_mult_div_eq_mod)
  then show ?thesis using h by (simp add: tmod_def tdiv_neg)
qed

lemma Seconds_ge_one_iff:
  assumes "d < 2 ^ 63"
  shows "1 \<le> Seconds d \<longleftrightarrow> Second \<le> d"
proof -
  consider "d < 0" | "d = 0" | "0 < d" "d < 1000000000" | "1000000000 \<le> d" by linarith
  then show ?thesis
  proof cases
    case 1
    have "tdiv d Second \<le> 0"
      using 1 by (simp add: tdiv_neg Second_def pos_imp_zdiv_nonneg_iff)
    then have "(of_int (tdiv d Second) :: rat) \<le> 0" by simp
    then have a: "float64 (of_int (tdiv d Second)) \<le> 0"
      unfolding float64_def by (rule fl_nonpos)
    have "tmod d Second \<le> 0"
      using 1 by (simp add: tmod_neg Second_def)
    then have "(of_int (tmod d Second) :: rat) \<le> 0" by simp
    then have "float64 (of_int (tmod d Second)) \<le> 0"
      unfolding float64_def by (rule fl_nonpos)
    then have "float64 (of_int (tmod d Second)) / 1000000000 \<le> 0" by simp
    then have "float64 (float64 (of_int (tmod d Second)) / 1000000000) \<le> 0"
      unfolding float64_def by (rule fl_nonpos)
    with a have "float64 (of_int (tdiv d Second))
        + float64 (float64 (of_int (tmod d Second)) / 1000000000) \<le> 0" by linarith
    then have "Seconds d \<le> 0"
      unfolding Seconds_def float64_def by (rule fl_nonpos)
    with 1 show ?thesis by (simp add: Second_def)
  next
    case 2
    then show ?thesis
      by (simp add: Seconds_def tdiv_def tmod_def float64_zero Second_def)
  next
    case 3
    then have s: "tdiv d Second = 0" and n: "tmod d Second = d"
      by (simp_all add: tdiv_nonneg tmod_nonneg Second_def)
    define b0 where "b0 = float64 (of_int d)"
    define b1 where "b1 = float64 (b0 / 1000000000)"
    have d1: "(1::rat) \<le> of_int d" using 3(1) by simp
    have "d \<le> 999999999" using 3(2) by simp
    then have "(of_int d :: rat) \<le> of_int 999999999" by (simp only: of_int_le_iff)
    then have d2: "(of_int d :: rat) \<le> 999999999" by simp
    have "1 / 2 ^ 40 \<le> (of_int d :: rat)" "(of_int d :: rat) < 2 ^ 70" using d1 d2 by simp_all
    from float64_rel [OF this] have
      b0: "of_int d * (9007199254740991 / 9007199254740992) \<le> b0"
          "b0 \<le> of_int d * (9007199254740993 / 9007199254740992)"
      by (simp_all add: b0_def)
    have "1 / 2 ^ 40 \<le> b0 / 1000000000" "b0 / 1000000000 \<le> 4" using b0 d1 d2 by simp_all
    from float64_small_upper [OF this] have
      b1: "b0 / 1000000000 * (9007199254740991 / 9007199254740992) \<le> b1"
          "b1 \<le> b0 / 1000000000 * (9007199254740993 / 9007199254740992)"
      by (simp_all add: b1_def)
    have "1 / 2 ^ 40 \<le> b1" "b1 \<le> 4" using b1 b0 d1 d2 by simp_all
    from float64_small_upper [OF this] have
      "float64 b1 \<le> b1 * (9007199254740993 / 9007199254740992)" by simp
    with b1 b0 d2 have "float64 b1 < 1" by linarith
    moreover have "Seconds d = float64 b1"
      by (simp add: Seconds_def s n float64_zero b1_def b0_def)
    ultimately show ?thesis using 3 by (simp add: Second_def)
  next
    case 4
    define s where "s = d div 1000000000"
    define n where "n = d mod 1000000000"
    have sd: "tdiv d Second = s" and nd: "tmod d Second = n"
      using 4 by (simp_all add: tdiv_nonneg tmod_nonneg Second_def s_def n_def)
    have s1: "1 \<le> s" using 4 unfolding s_def by (simp add: pos_imp_zdiv_pos_iff)
    have n1: "0 \<le> n" "n < 1000000000" by (simp_all add: n_def)
    have "d = 1000000000 * s + n" by (simp add: s_def n_def)
    with n1 s1 have "s \<le> d" by linarith
    with assms have s2: "s < 2 ^ 63" by simp
    from n1 have n2: "n < 2 ^ 63" by simp
    define a where "a = float64 (of_int s)"
    define b0 where "b0 = float64 (of_int n)"
    define b1 where "b1 = float64 (b0 / 1000000000)"
    have "(1::rat) \<le> of_int s" using s1 by simp
    moreover have "of_int s < (of_int (2 ^ 63) :: rat)" using s2 by (simp only: of_int_less_iff)
    then have "(of_int s :: rat) < 2 ^ 63" by simp
    ultimately have a1: "1 \<le> a" and a2: "a \<le> 2 ^ 64"
      using float64_ge_one [of "of_int s"] float64_nat_upper [of s] s1 s2
      by (simp_all add: a_def)
    have "n \<le> 1000000000" using n1 by simp
    then have "(of_int n :: rat) \<le> of_int 1000000000" by (simp only: of_int_le_iff)
    then have "(of_int n :: rat) \<le> 1000000000" by simp
    with float64_nat_upper [OF n1(1) n2] have b0: "0 \<le> b0" "b0 \<le> 2000000000"
      by (simp_all add: b0_def)
    have b1: "0 \<le> b1" "b1 \<le> 4"
    proof -
      show "0 \<le> b1" unfolding b1_def float64_def using b0(1) by (intro fl_nonneg) simp
      show "b1 \<le> 4"
      proof (cases "1 / 2 ^ 40 \<le> b0 / 1000000000")
        case True
        have "b0 / 1000000000 \<le> 4" using b0 by simp
        from float64_small_upper [OF True this] b0 show ?thesis by (simp add: b1_def)
      next
        case False
        then have small: "b0 / 1000000000 < 1 / 2 ^ 40" by simp
        have "b0 = 0"
        proof (rule ccontr)
          assume "b0 \<noteq> 0"
          then have "n \<noteq> 0" by (auto simp: b0_def float64_zero)
          with n1 have "(1::rat) \<le> of_int n" by simp
          then have "1 \<le> b0" unfolding b0_def using n2
            by (intro float64_ge_one) simp_all
          with small show False by simp
        qed
        then show ?thesis by (simp add: b1_def float64_zero)
      qed
    qed
    have "1 \<le> a + b1" "a + b1 < 2 ^ 70" using a1 a2 b1 by simp_all
    then have "1 \<le> float64 (a + b1)" by (rule float64_ge_one)
    then have "1 \<le> Seconds d" by (simp add: Seconds_def sd nd a_def b0_def b1_def)
    with 4 show ?thesis by (simp add: Second_def)
  qed
qed

section \<open>The target rate\<close>

lemma sint_max_one: "sint (if word_sless fps 1 then 1 else fps :: 64 word) = max 1 (sint fps)"
  by (simp add: word_sless_alt)

section \<open>Callbacks, passes and the run\<close>

lemma Stop_config: "config (snd (Stop l)) = config l"
  by (simp add: Stop_def config_def split: chan.split)

lemma Stop_in_run: "in_run l \<Longrightarrow> in_run (snd (Stop l)) \<and> fst (Stop l) = Inr None"
  by (simp add: Stop_def in_run_def split: chan.split if_splits)

lemma Stop_stoppable: "stoppable l \<Longrightarrow> stoppable (snd (Stop l)) \<and> fst (Stop l) = Inr None"
  by (simp add: Stop_def stoppable_def split: chan.split)

lemma invoke_env:
  "invoke ev f l e = (r, l', e') \<Longrightarrow>
     e' = e\<lparr>now := now e + int (took (f (world e))), world := world_after (f (world e)),
            trace := trace e @ [ev]\<rparr>"
  by (auto simp: invoke_def Let_def split: sum.splits option.splits)

lemma invoke_config: "invoke ev f l e = (r, l', e') \<Longrightarrow> config l' = config l"
  by (auto simp: invoke_def Let_def Stop_config split: sum.splits option.splits if_splits)

lemma invoke_in_run: "invoke ev f l e = (r, l', e') \<Longrightarrow> in_run l \<Longrightarrow> in_run l'"
  by (auto simp: invoke_def Let_def Stop_in_run split: sum.splits option.splits if_splits)

lemma invoke_stoppable: "invoke ev f l e = (r, l', e') \<Longrightarrow> stoppable l \<Longrightarrow> stoppable l'"
  by (auto simp: invoke_def Let_def Stop_stoppable split: sum.splits option.splits if_splits)

lemma invoke_result:
  assumes "invoke ev f l e = (r, l', e')"
  shows "trace e' = trace e @ [ev]" "now e \<le> now e'" "config l' = config l"
    "in_run l \<Longrightarrow> in_run l'" "stoppable l \<Longrightarrow> stoppable l'"
  using invoke_env [OF assms] invoke_config [OF assms] invoke_in_run [OF assms]
    invoke_stoppable [OF assms]
  by simp_all

lemma input_phase_result:
  assumes "input_phase l e = (r, l1, e1)"
  shows "trace e1 = trace e @ slot_ev (input l) EvInput" "config l1 = config l" "now e \<le> now e1"
    "in_run l \<Longrightarrow> in_run l1" "stoppable l \<Longrightarrow> stoppable l1"
proof -
  have "trace e1 = trace e @ slot_ev (input l) EvInput \<and> config l1 = config l \<and> now e \<le> now e1
      \<and> (in_run l \<longrightarrow> in_run l1) \<and> (stoppable l \<longrightarrow> stoppable l1)"
  proof (cases "input l")
    case None
    with assms show ?thesis by (simp add: input_phase_def slot_ev_def)
  next
    case (Some f)
    with assms have "invoke EvInput f l e = (r, l1, e1)" by (simp add: input_phase_def)
    from invoke_result [OF this] Some show ?thesis by (simp add: slot_ev_def)
  qed
  then show "trace e1 = trace e @ slot_ev (input l) EvInput" "config l1 = config l"
    "now e \<le> now e1" "in_run l \<Longrightarrow> in_run l1" "stoppable l \<Longrightarrow> stoppable l1"
    by simp_all
qed

lemma update_phase_result:
  assumes "update_phase l v e = (r, l1, e1)"
  shows "trace e1 = trace e @ slot_ev (update l) (EvUpdate (Since e (lastFrame v)))"
    "config l1 = config l" "now e \<le> now e1" "in_run l \<Longrightarrow> in_run l1"
    "stoppable l \<Longrightarrow> stoppable l1"
proof -
  have "trace e1 = trace e @ slot_ev (update l) (EvUpdate (Since e (lastFrame v)))
      \<and> config l1 = config l \<and> now e \<le> now e1
      \<and> (in_run l \<longrightarrow> in_run l1) \<and> (stoppable l \<longrightarrow> stoppable l1)"
  proof (cases "update l")
    case None
    with assms show ?thesis by (simp add: update_phase_def slot_ev_def)
  next
    case (Some f)
    with assms have
      "invoke (EvUpdate (Since e (lastFrame v))) (f (Since e (lastFrame v))) l e = (r, l1, e1)"
      by (simp add: update_phase_def)
    from invoke_result [OF this] Some show ?thesis by (simp add: slot_ev_def)
  qed
  then show "trace e1 = trace e @ slot_ev (update l) (EvUpdate (Since e (lastFrame v)))"
    "config l1 = config l" "now e \<le> now e1" "in_run l \<Longrightarrow> in_run l1"
    "stoppable l \<Longrightarrow> stoppable l1"
    by simp_all
qed

lemma render_phase_result:
  assumes "render_phase l e = (r, l1, e1)"
  shows "trace e1 = trace e @ slot_ev (render l) EvRender" "config l1 = config l" "now e \<le> now e1"
    "in_run l \<Longrightarrow> in_run l1" "stoppable l \<Longrightarrow> stoppable l1"
proof -
  have "trace e1 = trace e @ slot_ev (render l) EvRender \<and> config l1 = config l \<and> now e \<le> now e1
      \<and> (in_run l \<longrightarrow> in_run l1) \<and> (stoppable l \<longrightarrow> stoppable l1)"
  proof (cases "render l")
    case None
    with assms show ?thesis by (simp add: render_phase_def slot_ev_def)
  next
    case (Some f)
    with assms have "invoke EvRender f l e = (r, l1, e1)" by (simp add: render_phase_def)
    from invoke_result [OF this] Some show ?thesis by (simp add: slot_ev_def)
  qed
  then show "trace e1 = trace e @ slot_ev (render l) EvRender" "config l1 = config l"
    "now e \<le> now e1" "in_run l \<Longrightarrow> in_run l1" "stoppable l \<Longrightarrow> stoppable l1"
    by simp_all
qed

lemma config_fields:
  assumes "config l' = config l"
  shows "msPerFrame l' = msPerFrame l" "input l' = input l" "update l' = update l"
    "render l' = render l" "recoverFunc l' = recoverFunc l" "currentFps l' = currentFps l"
    "targetFps l' = targetFps l"
  using assms by (simp_all add: config_def)

lemma phases_cases:
  obtains (input_fault) p l1 e1 where "input_phase l e = (Some p, l1, e1)" "phases l v e = (Some p, l1, e1)"
  | (update_fault) p l1 e1 l2 e2 where "input_phase l e = (None, l1, e1)"
      "update_phase l1 v e1 = (Some p, l2, e2)" "phases l v e = (Some p, l2, e2)"
  | (render) r l1 e1 l2 e2 l3 e3 where "input_phase l e = (None, l1, e1)"
      "update_phase l1 v e1 = (None, l2, e2)" "render_phase l2 e2 = (r, l3, e3)"
      "phases l v e = (r, l3, e3)"
proof -
  obtain r1 l1 e1 where i: "input_phase l e = (r1, l1, e1)" by (cases "input_phase l e") auto
  obtain r2 l2 e2 where u: "update_phase l1 v e1 = (r2, l2, e2)"
    by (cases "update_phase l1 v e1") auto
  obtain r3 l3 e3 where r: "render_phase l2 e2 = (r3, l3, e3)"
    by (cases "render_phase l2 e2") auto
  show thesis
  proof (cases r1)
    case (Some p)
    with i show ?thesis by (intro input_fault [of p l1 e1]) (simp_all add: phases_def)
  next
    case None
    note n1 = this
    show ?thesis
    proof (cases r2)
      case (Some p)
      with i u n1 show ?thesis
        by (intro update_fault [of l1 e1 p l2 e2]) (simp_all add: phases_def)
    next
      case None
      with i u r n1 show ?thesis
        by (intro render [of l1 e1 l2 e2 r3 l3 e3]) (simp_all add: phases_def)
    qed
  qed
qed

lemma phases_done:
  assumes "phases l v e = (None, l3, e3)"
  shows "trace e3 = trace e @ slot_ev (input l) EvInput
           @ slot_ev (update l) (EvUpdate (Since (after_input l e) (lastFrame v)))
           @ slot_ev (render l) EvRender"
proof (cases rule: phases_cases [of l e v])
  case (input_fault p l1 e1)
  with assms show ?thesis by simp
next
  case (update_fault p l1 e1 l2 e2)
  with assms show ?thesis by simp
next
  case (render r l1 e1 l2 e2 l3' e3')
  with assms have r: "render_phase l2 e2 = (None, l3, e3)" by simp
  from input_phase_result(2) [OF render(1)] have c1: "update l1 = update l"
    by (rule config_fields)
  from update_phase_result(2) [OF render(2)] input_phase_result(2) [OF render(1)]
  have c2: "render l2 = render l" by (simp add: config_def)
  show ?thesis
    using input_phase_result(1) [OF render(1)] update_phase_result(1) [OF render(2)]
      render_phase_result(1) [OF r] c1 c2 render(1)
    by (simp add: after_input_def)
qed


lemma phases_keep:
  assumes "phases l v e = (r, l3, e3)"
  shows "config l3 = config l" "now e \<le> now e3" "in_run l \<Longrightarrow> in_run l3"
    "stoppable l \<Longrightarrow> stoppable l3"
proof -
  have "config l3 = config l \<and> now e \<le> now e3 \<and> (in_run l \<longrightarrow> in_run l3)
      \<and> (stoppable l \<longrightarrow> stoppable l3)"
  proof (cases rule: phases_cases [of l e v])
    case (input_fault p l1 e1)
    with assms input_phase_result [OF input_fault(1)] show ?thesis by simp
  next
    case (update_fault p l1 e1 l2 e2)
    with assms input_phase_result [OF update_fault(1)] update_phase_result [OF update_fault(2)]
    show ?thesis by simp
  next
    case (render r' l1 e1 l2 e2 l3' e3')
    with assms input_phase_result [OF render(1)] update_phase_result [OF render(2)]
      render_phase_result [OF render(3)]
    show ?thesis by simp
  qed
  then show "config l3 = config l" "now e \<le> now e3" "in_run l \<Longrightarrow> in_run l3"
    "stoppable l \<Longrightarrow> stoppable l3" by simp_all
qed

lemma iteration_fault:
  "phases l v e = (Some p, l3, e3) \<Longrightarrow> iteration l v e = (Some p, l3, v, e3)"
  by (simp add: iteration_def)

lemma iteration_done:
  "phases l v e = (None, l3, e3) \<Longrightarrow>
     iteration l v e =
       (None,
        fst (meter l3 (v\<lparr>lastFrame := now e3, frameCounter := frameCounter v + 1\<rparr>) e3),
        snd (meter l3 (v\<lparr>lastFrame := now e3, frameCounter := frameCounter v + 1\<rparr>) e3),
        pace (fst (meter l3 (v\<lparr>lastFrame := now e3, frameCounter := frameCounter v + 1\<rparr>) e3))
          (now e) e3)"
  by (simp add: iteration_def Let_def)

lemma sat64_range: "- (2 ^ 63) \<le> sat64 d" "sat64 d < 2 ^ 63"
  by (simp_all add: sat64_def)

lemma sat64_nonneg: "0 \<le> d \<Longrightarrow> 0 \<le> sat64 d"
  by (simp add: sat64_def)

lemma meter_eq:
  "meter l v e =
     (if Second \<le> Since e (lastSecond v)
      then (l\<lparr>currentFps := frameCounter v\<rparr>, v\<lparr>lastSecond := now e, frameCounter := 0\<rparr>)
      else (l, v))"
  using Seconds_ge_one_iff [of "Since e (lastSecond v)"] sat64_range(2) [of "now e - lastSecond v"]
  by (simp add: meter_def Since_def)

lemma Milliseconds_nonneg: "0 \<le> d \<Longrightarrow> Milliseconds d = d div 1000000"
  by (simp add: Milliseconds_def tdiv_nonneg)

lemma sleeps_append: "sleeps (xs @ ys) = sleeps xs @ sleeps ys"
  by (induction xs rule: sleeps.induct) simp_all

lemma loop_stopped: "stopCh l = ClosedChan \<Longrightarrow> loop l v e = Some (None, l, e)"
  by (subst loop.simps) simp

lemma loop_fault:
  "stopCh l \<noteq> ClosedChan \<Longrightarrow> iteration l v e = (Some p, l', v', e') \<Longrightarrow>
     loop l v e = Some (Some p, l', e')"
  by (subst loop.simps) simp

lemma loop_step:
  "stopCh l \<noteq> ClosedChan \<Longrightarrow> iteration l v e = (None, l', v', e') \<Longrightarrow>
     loop l v e = loop l' v' e'"
  by (subst loop.simps) simp

lemma passes_SucD:
  assumes "passes (Suc n) l v e = Some s"
  obtains l1 v1 e1 where "stopCh l \<noteq> ClosedChan" "iteration l v e = (None, l1, v1, e1)"
    "passes n l1 v1 e1 = Some s"
proof -
  from assms have c: "stopCh l \<noteq> ClosedChan" by (auto split: if_splits)
  obtain r l1 v1 e1 where i: "iteration l v e = (r, l1, v1, e1)"
    by (cases "iteration l v e") auto
  with assms c have "r = None" "passes n l1 v1 e1 = Some s"
    by (auto split: option.splits)
  with c i that show thesis by simp
qed

lemma loop_passes: "passes n l v e = Some (l', v', e') \<Longrightarrow> loop l v e = loop l' v' e'"
proof (induction n arbitrary: l v e)
  case 0
  then show ?case by simp
next
  case (Suc n)
  from Suc.prems obtain l1 v1 e1 where
    h: "stopCh l \<noteq> ClosedChan" "iteration l v e = (None, l1, v1, e1)"
       "passes n l1 v1 e1 = Some (l', v', e')"
    by (rule passes_SucD)
  from loop_step [OF h(1,2)] Suc.IH [OF h(3)] show ?case by simp
qed

lemma iteration_keep:
  assumes "iteration l v e = (r, l', v', e')"
  shows "msPerFrame l' = msPerFrame l" "input l' = input l" "update l' = update l"
    "render l' = render l" "recoverFunc l' = recoverFunc l" "targetFps l' = targetFps l"
    "in_run l \<Longrightarrow> in_run l'" "stoppable l \<Longrightarrow> stoppable l'"
proof -
  obtain r3 l3 e3 where ph: "phases l v e = (r3, l3, e3)" by (cases "phases l v e") auto
  note k = phases_keep [OF ph]
  have "msPerFrame l' = msPerFrame l \<and> input l' = input l \<and> update l' = update l
      \<and> render l' = render l \<and> recoverFunc l' = recoverFunc l \<and> targetFps l' = targetFps l
      \<and> (in_run l \<longrightarrow> in_run l') \<and> (stoppable l \<longrightarrow> stoppable l')"
  proof (cases r3)
    case (Some p)
    with ph assms k show ?thesis by (simp add: iteration_fault config_def)
  next
    case None
    with ph have "phases l v e = (None, l3, e3)" by simp
    from iteration_done [OF this] assms k show ?thesis
      by (auto simp: meter_eq config_def in_run_def stoppable_def)
  qed
  then show "msPerFrame l' = msPerFrame l" "input l' = input l" "update l' = update l"
    "render l' = render l" "recoverFunc l' = recoverFunc l" "targetFps l' = targetFps l"
    "in_run l \<Longrightarrow> in_run l'" "stoppable l \<Longrightarrow> stoppable l'"
    by simp_all
qed

lemma passes_keep:
  "passes n l v e = Some (l', v', e') \<Longrightarrow>
     msPerFrame l' = msPerFrame l \<and> recoverFunc l' = recoverFunc l \<and> update l' = update l
     \<and> (in_run l \<longrightarrow> in_run l') \<and> (stoppable l \<longrightarrow> stoppable l')"
proof (induction n arbitrary: l v e)
  case 0
  then show ?case by simp
next
  case (Suc n)
  from Suc.prems obtain l1 v1 e1 where
    h: "stopCh l \<noteq> ClosedChan" "iteration l v e = (None, l1, v1, e1)"
       "passes n l1 v1 e1 = Some (l', v', e')"
    by (rule passes_SucD)
  from iteration_keep [OF h(2)] Suc.IH [OF h(3)] show ?case by simp
qed

section \<open>A pass, call by call\<close>

lemma invoke_exact:
  "in_run l \<Longrightarrow>
     invoke ev f l e =
       (map_option Raised (fault (f (world e))),
        (if stops (f (world e)) then snd (Stop l) else l), outcome ev f e)"
  using Stop_in_run [of l]
  by (auto simp: invoke_def Let_def outcome_def split: option.splits sum.splits)

lemma input_phase_exact:
  "in_run l \<Longrightarrow>
     fst (input_phase l e) = slot_panic (input l) e
     \<and> snd (snd (input_phase l e)) = slot_env (input l) EvInput e"
  by (cases "input l") (simp_all add: input_phase_def invoke_exact slot_panic_def slot_env_def)

lemma update_phase_exact:
  "in_run l \<Longrightarrow>
     fst (update_phase l v e) =
       slot_panic (map_option (\<lambda>f. f (Since e (lastFrame v))) (update l)) e
     \<and> snd (snd (update_phase l v e)) =
       slot_env (map_option (\<lambda>f. f (Since e (lastFrame v))) (update l))
         (EvUpdate (Since e (lastFrame v))) e"
  by (cases "update l") (simp_all add: update_phase_def invoke_exact slot_panic_def slot_env_def)

lemma render_phase_exact:
  "in_run l \<Longrightarrow>
     fst (render_phase l e) = slot_panic (render l) e
     \<and> snd (snd (render_phase l e)) = slot_env (render l) EvRender e"
  by (cases "render l") (simp_all add: render_phase_def invoke_exact slot_panic_def slot_env_def)

lemma phases_exact:
  assumes "in_run l" "phases l v e = (r, l3, e3)"
  shows "(r, e3) = spec_pass l v e"
proof (cases rule: phases_cases [of l e v])
  case (input_fault p l1 e1)
  with assms(2) have re: "r = Some p" "e3 = e1" by simp_all
  from input_phase_exact [OF assms(1), of e] input_fault(1)
  have a: "slot_panic (input l) e = Some p" "slot_env (input l) EvInput e = e1" by simp_all
  show ?thesis by (simp add: spec_pass_def Let_def a re)
next
  case (update_fault p l1 e1 l2 e2)
  with assms(2) have re: "r = Some p" "e3 = e2" by simp_all
  from input_phase_result(4) [OF update_fault(1) assms(1)] have i1: "in_run l1" .
  from input_phase_result(2) [OF update_fault(1)] have u: "update l1 = update l"
    by (rule config_fields)
  from input_phase_exact [OF assms(1), of e] update_fault(1)
  have a: "slot_panic (input l) e = None" "slot_env (input l) EvInput e = e1" by simp_all
  from update_phase_exact [OF i1, of v e1] update_fault(2) u
  have b: "slot_panic (map_option (\<lambda>f. f (Since e1 (lastFrame v))) (update l)) e1 = Some p"
    "slot_env (map_option (\<lambda>f. f (Since e1 (lastFrame v))) (update l))
       (EvUpdate (Since e1 (lastFrame v))) e1 = e2" by simp_all
  show ?thesis by (simp add: spec_pass_def Let_def a b re)
next
  case (render r' l1 e1 l2 e2 l3' e3')
  with assms(2) have re: "r' = r" "e3' = e3" by simp_all
  from input_phase_result(4) [OF render(1) assms(1)] have i1: "in_run l1" .
  from update_phase_result(4) [OF render(2) i1] have i2: "in_run l2" .
  from input_phase_result(2) [OF render(1)] have u: "update l1 = update l"
    by (rule config_fields)
  from update_phase_result(2) [OF render(2)] input_phase_result(2) [OF render(1)]
  have d: "render l2 = render l" by (simp add: config_def)
  from input_phase_exact [OF assms(1), of e] render(1)
  have a: "slot_panic (input l) e = None" "slot_env (input l) EvInput e = e1" by simp_all
  from update_phase_exact [OF i1, of v e1] render(2) u
  have b: "slot_panic (map_option (\<lambda>f. f (Since e1 (lastFrame v))) (update l)) e1 = None"
    "slot_env (map_option (\<lambda>f. f (Since e1 (lastFrame v))) (update l))
       (EvUpdate (Since e1 (lastFrame v))) e1 = e2" by simp_all
  from render_phase_exact [OF i2, of e2] render(3) d re
  have c: "slot_panic (render l) e2 = r" "slot_env (render l) EvRender e2 = e3" by simp_all
  show ?thesis by (simp add: spec_pass_def Let_def a b c)
qed

lemma spec_pass_slots:
  "input l' = input l \<Longrightarrow> update l' = update l \<Longrightarrow> render l' = render l \<Longrightarrow>
     spec_pass l' v e = spec_pass l v e"
  by (simp add: spec_pass_def Let_def cong: option.case_cong)

lemma passes_slots:
  "passes n l v e = Some (l', v', e') \<Longrightarrow> input l' = input l \<and> render l' = render l"
proof (induction n arbitrary: l v e)
  case 0
  then show ?case by simp
next
  case (Suc n)
  from Suc.prems obtain l1 v1 e1 where
    h: "stopCh l \<noteq> ClosedChan" "iteration l v e = (None, l1, v1, e1)"
       "passes n l1 v1 e1 = Some (l', v', e')"
    by (rule passes_SucD)
  from iteration_keep(2,4) [OF h(2)] Suc.IH [OF h(3)] show ?case by simp
qed

lemma iteration_faultD:
  assumes "iteration l v e = (Some p, l2, v2, e2)"
  shows "phases l v e = (Some p, l2, e2)" "v2 = v"
proof -
  obtain r3 l3 e3 where ph: "phases l v e = (r3, l3, e3)" by (cases "phases l v e") auto
  have "phases l v e = (Some p, l2, e2) \<and> v2 = v"
  proof (cases r3)
    case None
    with ph have "phases l v e = (None, l3, e3)" by simp
    from iteration_done [OF this] assms show ?thesis by simp
  next
    case (Some q)
    with ph have "phases l v e = (Some q, l3, e3)" by simp
    from iteration_fault [OF this] assms ph Some show ?thesis by simp
  qed
  then show "phases l v e = (Some p, l2, e2)" "v2 = v" by simp_all
qed

section \<open>The concrete instances\<close>

lemma NewLoop_fields:
  "targetFps NewLoop = 60" "msPerFrame NewLoop = 16" "stopCh NewLoop = NilChan"
  "\<not> isRunning NewLoop" "input NewLoop = None" "update NewLoop = None" "render NewLoop = None"
  "recoverFunc NewLoop = None" "currentFps NewLoop = 0"
  by (simp_all add: NewLoop_def SetTargetFps_def DEFAULT_FPS_def Let_def word_sless_alt
      msPerFrame_of_eq_div)

lemma NewLoop_eq:
  "NewLoop = \<lparr>targetFps = 60, msPerFrame = 16, stopCh = NilChan, isDebugMode = False,
      isRunning = False, input = None, update = None, render = None, recoverFunc = None,
      currentFps = 0\<rparr>"
  by (simp add: NewLoop_def SetTargetFps_def DEFAULT_FPS_def Let_def word_sless_alt
      msPerFrame_of_eq_div)

lemma demo_eq:
  "demo = \<lparr>targetFps = 60, msPerFrame = 16, stopCh = NilChan, isDebugMode = False,
      isRunning = False, input = Some (work 1000000), update = Some (\<lambda>dt. work 2000000),
      render = Some (work 3000000), recoverFunc = None, currentFps = 0\<rparr>"
  by (simp add: demo_def NewLoop_eq SetRenderFunc_def SetUpdateFunc_def SetInputFunc_def)

lemma demo_phases:
  "phases demo v at_start =
     (None, demo, \<lparr>now = 6000000, world = 3,
                   trace = [EvInput, EvUpdate (sat64 (1000000 - lastFrame v)), EvRender]\<rparr>)"
  by (simp add: phases_def input_phase_def update_phase_def render_phase_def invoke_def
      demo_eq work_def at_start_def Since_def Let_def)

lemma SetTargetFps_msPerFrame:
  "msPerFrame (SetTargetFps l r) = 1000 div sint (targetFps (SetTargetFps l r))"
proof -
  define t where "t = (if word_sless r 1 then 1 else r)"
  have "sint t = max 1 (sint r)" unfolding t_def by (rule sint_max_one)
  moreover have "sint r < 2 ^ 63" using sint_lt [of r] by simp
  ultimately have "1 \<le> sint t" "sint t < 2 ^ 63" by simp_all
  then have "msPerFrame_of (sint t) = 1000 div sint t" by (rule msPerFrame_of_eq_div)
  then show ?thesis by (simp add: SetTargetFps_def Let_def t_def)
qed

section \<open>Passes: sleeps, clock and rate window\<close>

lemma iteration_no_sleep:
  assumes "msPerFrame l = 0" "iteration l v e = (None, l', v', e')"
  shows "sleeps (trace e') = sleeps (trace e)"
proof -
  obtain r3 l3 e3 where ph: "phases l v e = (r3, l3, e3)" by (cases "phases l v e") auto
  with assms(2) have r3: "r3 = None" by (cases r3) (simp_all add: iteration_fault)
  with ph have ph': "phases l v e = (None, l3, e3)" by simp
  from phases_keep [OF ph'] have m: "msPerFrame l3 = 0" and mono: "now e \<le> now e3"
    using assms(1) by (simp_all add: config_def)
  have "0 \<le> Since e3 (now e)" using mono by (simp add: Since_def sat64_nonneg)
  then have "0 \<le> Milliseconds (Since e3 (now e))"
    by (simp add: Milliseconds_nonneg pos_imp_zdiv_nonneg_iff)
  then have "pace (fst (meter l3 (v\<lparr>lastFrame := now e3, frameCounter := frameCounter v + 1\<rparr>) e3))
      (now e) e3 = e3"
    using m by (simp add: pace_def sleepTime_def meter_eq)
  with iteration_done [OF ph'] assms(2) have "e' = e3" by simp
  then show ?thesis
    using phases_done [OF ph'] by (simp add: sleeps_append slot_ev_def split: option.splits)
qed

lemma passes_no_sleep:
  "msPerFrame l = 0 \<Longrightarrow> passes n l v e = Some (l', v', e') \<Longrightarrow>
     sleeps (trace e') = sleeps (trace e)"
proof (induction n arbitrary: l v e)
  case 0
  then show ?case by simp
next
  case (Suc n)
  from Suc.prems(2) obtain l1 v1 e1 where
    h: "stopCh l \<noteq> ClosedChan" "iteration l v e = (None, l1, v1, e1)"
       "passes n l1 v1 e1 = Some (l', v', e')"
    by (rule passes_SucD)
  from iteration_keep(1) [OF h(2)] Suc.prems(1) have "msPerFrame l1 = 0" by simp
  from Suc.IH [OF this h(3)] iteration_no_sleep [OF Suc.prems(1) h(2)] show ?case by simp
qed

lemma phases_work:
  assumes "input l = Some (work a)" "update l = Some (\<lambda>dt. work b)" "render l = Some (work c)"
  shows "phases l v e =
     (None, l, \<lparr>now = now e + int a + int b + int c, world = Suc (Suc (Suc (world e))),
                trace = trace e @ [EvInput, EvUpdate (sat64 (now e + int a - lastFrame v)), EvRender]\<rparr>)"
  using assms
  by (simp add: phases_def input_phase_def update_phase_def render_phase_def invoke_def
      work_def Since_def Let_def)

lemma fast_eq:
  "SetTargetFps demo 2000 = \<lparr>targetFps = 2000, msPerFrame = 0, stopCh = NilChan,
      isDebugMode = False, isRunning = False, input = Some (work 1000000),
      update = Some (\<lambda>dt. work 2000000), render = Some (work 3000000), recoverFunc = None,
      currentFps = 0\<rparr>"
proof -
  have "msPerFrame_of 2000 = 0" by (simp add: msPerFrame_of_eq_div)
  then show ?thesis by (simp add: SetTargetFps_def Let_def word_sless_alt demo_eq)
qed

lemma fast_pass:
  "passes (Suc 0) (SetTargetFps demo 2000) (run_locals at_start) at_start =
     Some (SetTargetFps demo 2000, \<lparr>frameCounter = 1, lastFrame = 6000000, lastSecond = 0\<rparr>,
           \<lparr>now = 6000000, world = 3, trace = [EvInput, EvUpdate 1000000, EvRender]\<rparr>)"
proof -
  define L where "L = SetTargetFps demo 2000"
  define E3 :: "(nat, nat) env" where
    "E3 = \<lparr>now = 6000000, world = 3, trace = [EvInput, EvUpdate 1000000, EvRender]\<rparr>"
  define V1 where "V1 = \<lparr>frameCounter = 1, lastFrame = 6000000, lastSecond = 0\<rparr>"
  have L: "input L = Some (work 1000000)" "update L = Some (\<lambda>dt. work 2000000)"
    "render L = Some (work 3000000)" "msPerFrame L = 0" "stopCh L \<noteq> ClosedChan"
    by (simp_all add: L_def fast_eq)
  have ph: "phases L (run_locals at_start) at_start = (None, L, E3)"
    by (simp add: phases_work [OF L(1-3)] at_start_def run_locals_def sat64_def E3_def
        numeral_3_eq_3)
  have v: "(run_locals at_start)\<lparr>lastFrame := now E3,
      frameCounter := frameCounter (run_locals at_start) + 1\<rparr> = V1"
    by (simp add: run_locals_def at_start_def E3_def V1_def)
  have m: "meter L V1 E3 = (L, V1)"
    by (simp add: meter_eq Since_def sat64_def Second_def E3_def V1_def)
  have p: "pace L (now at_start) E3 = E3"
    by (simp add: pace_def sleepTime_def L(4) Since_def sat64_def Milliseconds_def tdiv_def
        E3_def at_start_def)
  have "iteration L (run_locals at_start) at_start = (None, L, V1, E3)"
    by (simp add: iteration_done [OF ph] v m p)
  then show ?thesis
    unfolding L_def [symmetric] E3_def [symmetric] V1_def [symmetric] using L(5) by simp
qed

lemma at_start_simps: "now at_start = 0" "world at_start = 0" "trace at_start = []"
  by (simp_all add: at_start_def)

lemma ms_less_iff: "(a div 1000000 < b) = (a < b * 1000000)" for a b :: int
proof -
  define q where "q = a div 1000000"
  define r where "r = a mod 1000000"
  have "a = 1000000 * q + r" "0 \<le> r" "r < 1000000" by (simp_all add: q_def r_def)
  then have "(q < b) = (a < b * 1000000)" by linarith
  then show ?thesis by (simp only: q_def)
qed

lemma sleep_rounding:
  assumes "0 \<le> d"
  shows "m * Millisecond - d \<le> (m - Milliseconds d) * Millisecond"
    "(m - Milliseconds d) * Millisecond < m * Millisecond - d + Millisecond"
proof -
  define q where "q = d div 1000000"
  define r where "r = d mod 1000000"
  have d: "d = 1000000 * q + r" "0 \<le> r" "r < 1000000" by (simp_all add: q_def r_def)
  have m: "Milliseconds d = q" using assms by (simp add: Milliseconds_nonneg q_def)
  have e: "(m - q) * 1000000 = m * 1000000 - 1000000 * q" by (simp add: algebra_simps)
  show "m * Millisecond - d \<le> (m - Milliseconds d) * Millisecond"
    unfolding m Millisecond_def e using d by linarith
  show "(m - Milliseconds d) * Millisecond < m * Millisecond - d + Millisecond"
    unfolding m Millisecond_def e using d by linarith
qed

lemma pace_mono: "now e \<le> now (pace l start e)"
  by (simp add: pace_def Sleep_def)

lemma iteration_mono:
  assumes "iteration l v e = (r, l', v', e')"
  shows "now e \<le> now e'"
proof -
  obtain r3 l3 e3 where ph: "phases l v e = (r3, l3, e3)" by (cases "phases l v e") auto
  show ?thesis
  proof (cases r3)
    case (Some p)
    with ph assms phases_keep(2) [OF ph] show ?thesis by (simp add: iteration_fault)
  next
    case None
    with ph have ph': "phases l v e = (None, l3, e3)" by simp
    from iteration_done [OF ph'] assms have
      "e' = pace l' (now e) e3" by simp
    with pace_mono [of e3 l' "now e"] phases_keep(2) [OF ph'] show ?thesis by simp
  qed
qed

lemma passes_mono: "passes n l v e = Some (l', v', e') \<Longrightarrow> now e \<le> now e'"
proof (induction n arbitrary: l v e)
  case 0
  then show ?case by simp
next
  case (Suc n)
  from Suc.prems obtain l1 v1 e1 where
    h: "stopCh l \<noteq> ClosedChan" "iteration l v e = (None, l1, v1, e1)"
       "passes n l1 v1 e1 = Some (l', v', e')"
    by (rule passes_SucD)
  from iteration_mono [OF h(2)] Suc.IH [OF h(3)] show ?case by simp
qed

lemma iteration_window:
  assumes "phases l v e = (None, l3, e3)" "iteration l v e = (None, l', v', e')"
  shows "if Second \<le> Since e3 (lastSecond v)
         then currentFps l' = frameCounter v + 1 \<and> frameCounter v' = 0 \<and> lastSecond v' = now e3
         else currentFps l' = currentFps l \<and> frameCounter v' = frameCounter v + 1
              \<and> lastSecond v' = lastSecond v"
  using iteration_done [OF assms(1)] assms(2) phases_keep(1) [OF assms(1)]
  by (auto simp: meter_eq config_def)

lemma sat64_less: "d < Second \<Longrightarrow> sat64 d < Second"
  by (simp add: sat64_def Second_def)

lemma passes_before_window:
  "passes n l v e = Some (l', v', e') \<Longrightarrow> now e' - lastSecond v < Second \<Longrightarrow>
     currentFps l' = currentFps l \<and> lastSecond v' = lastSecond v"
proof (induction n arbitrary: l v e)
  case 0
  then show ?case by simp
next
  case (Suc n)
  from Suc.prems(1) obtain l1 v1 e1 where
    h: "stopCh l \<noteq> ClosedChan" "iteration l v e = (None, l1, v1, e1)"
       "passes n l1 v1 e1 = Some (l', v', e')"
    by (rule passes_SucD)
  obtain r3 l3 e3 where ph: "phases l v e = (r3, l3, e3)" by (cases "phases l v e") auto
  with h(2) have "r3 = None" by (cases r3) (simp_all add: iteration_fault)
  with ph have ph': "phases l v e = (None, l3, e3)" by simp
  from iteration_done [OF ph'] h(2) have "e1 = pace l1 (now e) e3" by simp
  with pace_mono [of e3 l1 "now e"] have "now e3 \<le> now e1" by simp
  with passes_mono [OF h(3)] Suc.prems(2) have "now e3 - lastSecond v < Second" by simp
  then have "\<not> Second \<le> Since e3 (lastSecond v)"
    using sat64_less [of "now e3 - lastSecond v"] by (simp add: Since_def)
  with iteration_window [OF ph' h(2)] have
    one: "currentFps l1 = currentFps l" "lastSecond v1 = lastSecond v" by simp_all
  with Suc.prems(2) have "now e' - lastSecond v1 < Second" by simp
  from Suc.IH [OF h(3) this] one show ?case by simp
qed

lemma demo_pass:
  "passes (Suc 0) demo (run_locals at_start) at_start =
     Some (demo, \<lparr>frameCounter = 1, lastFrame = 6000000, lastSecond = 0\<rparr>,
           \<lparr>now = 16000000, world = 3,
            trace = [EvInput, EvUpdate 1000000, EvRender, EvSleep 10000000]\<rparr>)"
proof -
  define E3 :: "(nat, nat) env" where
    "E3 = \<lparr>now = 6000000, world = 3, trace = [EvInput, EvUpdate 1000000, EvRender]\<rparr>"
  define V1 where "V1 = \<lparr>frameCounter = 1, lastFrame = 6000000, lastSecond = 0\<rparr>"
  have ph: "phases demo (run_locals at_start) at_start = (None, demo, E3)"
    by (simp add: demo_phases run_locals_def at_start_simps sat64_def E3_def)
  have v: "(run_locals at_start)\<lparr>lastFrame := now E3,
      frameCounter := frameCounter (run_locals at_start) + 1\<rparr> = V1"
    by (simp add: run_locals_def at_start_simps E3_def V1_def)
  have m: "meter demo V1 E3 = (demo, V1)"
    by (simp add: meter_eq Since_def sat64_def Second_def E3_def V1_def)
  have p: "pace demo (now at_start) E3 =
      \<lparr>now = 16000000, world = 3, trace = [EvInput, EvUpdate 1000000, EvRender, EvSleep 10000000]\<rparr>"
    by (simp add: pace_def sleepTime_def demo_eq Since_def sat64_def Milliseconds_def tdiv_def
        E3_def at_start_simps Sleep_def Millisecond_def)
  have "iteration demo (run_locals at_start) at_start =
      (None, demo, V1,
       \<lparr>now = 16000000, world = 3, trace = [EvInput, EvUpdate 1000000, EvRender, EvSleep 10000000]\<rparr>)"
    by (simp add: iteration_done [OF ph] v m p)
  moreover have "stopCh demo \<noteq> ClosedChan" by (simp add: demo_eq)
  ultimately show ?thesis unfolding V1_def by simp
qed

section \<open>When Stop cannot panic\<close>

lemma stoppable_NewLoop: "stoppable NewLoop"
  by (simp add: stoppable_def NewLoop_fields)

lemma stoppable_setters:
  "stoppable (SetTargetFps l r) = stoppable l" "stoppable (SetDebug l b) = stoppable l"
  "stoppable (SetUpdateFunc l u) = stoppable l" "stoppable (SetInputFunc l i) = stoppable l"
  "stoppable (SetRenderFunc l d) = stoppable l" "stoppable (SetRecoverFunc l h) = stoppable l"
  by (simp_all add: stoppable_def SetTargetFps_def SetDebug_def SetUpdateFunc_def
      SetInputFunc_def SetRenderFunc_def SetRecoverFunc_def Let_def)

lemma in_run_stoppable: "in_run l \<Longrightarrow> stoppable l"
  by (simp add: in_run_def stoppable_def split: if_splits)

lemma loop_in_run:
  assumes "loop l v e = Some y"
  shows "in_run l \<longrightarrow> in_run (fst (snd y))"
proof (rule loop.raw_induct [where P = "\<lambda>l v e y. in_run l \<longrightarrow> in_run (fst (snd y))",
      OF _ assms], goal_cases)
  case (1 loop' l v e y)
  show ?case
  proof (cases "stopCh l = ClosedChan")
    case True
    with 1(2) have "y = (None, l, e)" by simp
    then show ?thesis by simp
  next
    case False
    obtain r l1 v1 e1 where it: "iteration l v e = (r, l1, v1, e1)"
      by (cases "iteration l v e") auto
    show ?thesis
    proof (cases r)
      case None
      with 1(2) False it have "loop' l1 v1 e1 = Some y" by simp
      from 1(1) [OF this] iteration_keep(7) [OF it] show ?thesis by simp
    next
      case (Some p)
      with 1(2) False it have "y = (Some p, l1, e1)" by simp
      with iteration_keep(7) [OF it] show ?thesis by simp
    qed
  qed
qed

lemma Start_stoppable:
  assumes "Start l e = Some (r, l', e')" "stoppable l"
  shows "stoppable l'"
proof (cases "update l = None \<or> isRunning l")
  case True
  with assms show ?thesis by (auto simp: Start_def split: if_splits)
next
  case False
  then have a: "update l \<noteq> None" "\<not> isRunning l" by simp_all
  define l0 where "l0 = l\<lparr>isRunning := True, stopCh := OpenChan\<rparr>"
  have ir: "in_run l0" by (simp add: l0_def in_run_def)
  obtain y where y: "loop l0 (run_locals e) e = Some y"
    using assms(1) a by (auto simp: Start_def run_def l0_def split: option.splits)
  obtain q l1 e1 where yy: "y = (q, l1, e1)" by (cases y) auto
  from loop_in_run [OF y] ir yy have l1: "in_run l1" by simp
  show ?thesis
  proof (cases q)
    case None
    with assms(1) a y yy have "l' = l1" by (simp add: Start_def run_def l0_def)
    with l1 show ?thesis by (simp add: in_run_stoppable)
  next
    case (Some p)
    show ?thesis
    proof (cases "recoverFunc l")
      case None
      with assms(1) a y yy Some have "l' = l1" by (simp add: Start_def run_def l0_def)
      with l1 show ?thesis by (simp add: in_run_stoppable)
    next
      case (Some h0)
      note installed = this
      show ?thesis
      proof (cases "recoverFunc l1")
        case None
        with assms(1) a y yy \<open>q = Some p\<close> installed have "l' = l1"
          by (simp add: Start_def run_def l0_def)
        with l1 show ?thesis by (simp add: in_run_stoppable)
      next
        case (Some h)
        obtain q2 l2 e2 where iv: "invoke (EvRecover p) (h p) l1 e1 = (q2, l2, e2)"
          by (cases "invoke (EvRecover p) (h p) l1 e1") auto
        with assms(1) a y yy \<open>q = Some p\<close> installed Some have "l' = l2"
          by (cases q2) (simp_all add: Start_def run_def l0_def)
        with invoke_result(4) [OF iv l1] show ?thesis by (simp add: in_run_stoppable)
      qed
    qed
  qed
qed

lemma api_state_stoppable: "api_state l \<Longrightarrow> stoppable l"
proof (induction rule: api_state.induct)
  case new
  show ?case by (rule stoppable_NewLoop)
next
  case (stop l)
  then show ?case by (simp add: Stop_stoppable)
next
  case (start l e r l' e')
  from Start_stoppable [OF start(2) start(3)] show ?case .
qed (simp_all add: stoppable_setters)

section \<open>A run that Stop ends, and one that ends in a panic\<close>

lemma quitting_Start:
  "Start (SetUpdateFunc NewLoop (Some quitting)) at_start =
     Some (Inr None,
           (SetUpdateFunc NewLoop (Some quitting))\<lparr>isRunning := False, stopCh := ClosedChan\<rparr>,
           \<lparr>now = 16000000, world = 1, trace = [EvUpdate 0, EvSleep 15000000]\<rparr>)"
proof -
  define L :: "(nat, nat) Loop" where
    "L = (SetUpdateFunc NewLoop (Some quitting))\<lparr>isRunning := True, stopCh := OpenChan\<rparr>"
  define L' :: "(nat, nat) Loop" where
    "L' = (SetUpdateFunc NewLoop (Some quitting))\<lparr>isRunning := False, stopCh := ClosedChan\<rparr>"
  define E3 :: "(nat, nat) env" where "E3 = \<lparr>now = 1000000, world = 1, trace = [EvUpdate 0]\<rparr>"
  define V1 where "V1 = \<lparr>frameCounter = 1, lastFrame = 1000000, lastSecond = 0\<rparr>"
  define E4 :: "(nat, nat) env" where
    "E4 = \<lparr>now = 16000000, world = 1, trace = [EvUpdate 0, EvSleep 15000000]\<rparr>"
  have L: "input L = None" "update L = Some quitting" "render L = None"
    "stopCh L \<noteq> ClosedChan" "isRunning L" "stopCh L = OpenChan"
    by (simp_all add: L_def SetUpdateFunc_def NewLoop_eq)
  have L': "msPerFrame L' = 16" "stopCh L' = ClosedChan" "render L' = None"
    by (simp_all add: L'_def SetUpdateFunc_def NewLoop_eq)
  have LL: "L\<lparr>isRunning := False, stopCh := ClosedChan\<rparr> = L'"
    by (simp add: L_def L'_def)
  have ph: "phases L (run_locals at_start) at_start = (None, L', E3)"
    by (simp add: phases_def input_phase_def update_phase_def render_phase_def invoke_def L L'
        quitting_def Stop_def LL Since_def sat64_def Let_def run_locals_def at_start_def E3_def)
  have v: "(run_locals at_start)\<lparr>lastFrame := now E3,
      frameCounter := frameCounter (run_locals at_start) + 1\<rparr> = V1"
    by (simp add: run_locals_def at_start_simps E3_def V1_def)
  have m: "meter L' V1 E3 = (L', V1)"
    by (simp add: meter_eq Since_def sat64_def Second_def E3_def V1_def)
  have p: "pace L' (now at_start) E3 = E4"
    by (simp add: pace_def sleepTime_def L' Since_def sat64_def Milliseconds_def tdiv_def
        E3_def E4_def at_start_simps Sleep_def Millisecond_def)
  have "iteration L (run_locals at_start) at_start = (None, L', V1, E4)"
    by (simp add: iteration_done [OF ph] v m p)
  with L(4) have "loop L (run_locals at_start) at_start = loop L' V1 E4" by (rule loop_step)
  also have "\<dots> = Some (None, L', E4)" using L'(2) by (rule loop_stopped)
  finally have "run ((SetUpdateFunc NewLoop (Some quitting))\<lparr>isRunning := True\<rparr>) at_start =
      Some (None, L', E4)"
    by (simp add: run_def L_def)
  then show ?thesis
    by (simp add: Start_def SetUpdateFunc_def NewLoop_eq L'_def E4_def)
qed


lemma crashing_eq:
  "crashing = \<lparr>targetFps = 60, msPerFrame = 16, stopCh = NilChan, isDebugMode = False,
      isRunning = False, input = None, update = Some flaky, render = None,
      recoverFunc = Some noted, currentFps = 0\<rparr>"
  by (simp add: crashing_def NewLoop_eq SetRecoverFunc_def SetUpdateFunc_def)

lemma crashing_first_pass:
  "passes (Suc 0) (crashing\<lparr>isRunning := True, stopCh := OpenChan\<rparr>) (run_locals at_start) at_start =
     Some (crashing\<lparr>isRunning := True, stopCh := OpenChan\<rparr>,
           \<lparr>frameCounter = 1, lastFrame = 2000000, lastSecond = 0\<rparr>,
           \<lparr>now = 16000000, world = 1, trace = [EvUpdate 0, EvSleep 14000000]\<rparr>)"
proof -
  define L where "L = crashing\<lparr>isRunning := True, stopCh := OpenChan\<rparr>"
  define E3 :: "(nat, nat) env" where "E3 = \<lparr>now = 2000000, world = 1, trace = [EvUpdate 0]\<rparr>"
  define V1 where "V1 = \<lparr>frameCounter = 1, lastFrame = 2000000, lastSecond = 0\<rparr>"
  have L: "input L = None" "update L = Some flaky" "render L = None" "msPerFrame L = 16"
    "stopCh L \<noteq> ClosedChan"
    by (simp_all add: L_def crashing_eq)
  have ph: "phases L (run_locals at_start) at_start = (None, L, E3)"
    by (simp add: phases_def input_phase_def update_phase_def render_phase_def invoke_def L
        flaky_def work_def Since_def sat64_def Let_def run_locals_def at_start_def E3_def)
  have v: "(run_locals at_start)\<lparr>lastFrame := now E3,
      frameCounter := frameCounter (run_locals at_start) + 1\<rparr> = V1"
    by (simp add: run_locals_def at_start_simps E3_def V1_def)
  have m: "meter L V1 E3 = (L, V1)"
    by (simp add: meter_eq Since_def sat64_def Second_def E3_def V1_def)
  have p: "pace L (now at_start) E3 =
      \<lparr>now = 16000000, world = 1, trace = [EvUpdate 0, EvSleep 14000000]\<rparr>"
    by (simp add: pace_def sleepTime_def L Since_def sat64_def Milliseconds_def tdiv_def
        E3_def at_start_simps Sleep_def Millisecond_def)
  have "iteration L (run_locals at_start) at_start =
      (None, L, V1, \<lparr>now = 16000000, world = 1, trace = [EvUpdate 0, EvSleep 14000000]\<rparr>)"
    by (simp add: iteration_done [OF ph] v m p)
  then show ?thesis
    unfolding L_def [symmetric] V1_def [symmetric] using L(5) by simp
qed

lemma crashing_second_phases:
  "phases (crashing\<lparr>isRunning := True, stopCh := OpenChan\<rparr>)
      \<lparr>frameCounter = 1, lastFrame = 2000000, lastSecond = 0\<rparr>
      \<lparr>now = 16000000, world = 1, trace = [EvUpdate 0, EvSleep 14000000]\<rparr> =
     (Some (Raised 7), crashing\<lparr>isRunning := True, stopCh := OpenChan\<rparr>,
      \<lparr>now = 16000000, world = 1, trace = [EvUpdate 0, EvSleep 14000000, EvUpdate 14000000]\<rparr>)"
proof -
  define L where "L = crashing\<lparr>isRunning := True, stopCh := OpenChan\<rparr>"
  have L: "input L = None" "update L = Some flaky" "render L = None"
    by (simp_all add: L_def crashing_eq)
  have "phases L \<lparr>frameCounter = 1, lastFrame = 2000000, lastSecond = 0\<rparr>
      \<lparr>now = 16000000, world = 1, trace = [EvUpdate 0, EvSleep 14000000]\<rparr> =
     (Some (Raised 7), L,
      \<lparr>now = 16000000, world = 1, trace = [EvUpdate 0, EvSleep 14000000, EvUpdate 14000000]\<rparr>)"
    by (simp add: phases_def input_phase_def update_phase_def invoke_def L
        flaky_def failing_def Since_def sat64_def Let_def)
  then show ?thesis unfolding L_def [symmetric] .
qed

lemma crashing_second_pass:
  "iteration (crashing\<lparr>isRunning := True, stopCh := OpenChan\<rparr>)
      \<lparr>frameCounter = 1, lastFrame = 2000000, lastSecond = 0\<rparr>
      \<lparr>now = 16000000, world = 1, trace = [EvUpdate 0, EvSleep 14000000]\<rparr> =
     (Some (Raised 7), crashing\<lparr>isRunning := True, stopCh := OpenChan\<rparr>,
      \<lparr>frameCounter = 1, lastFrame = 2000000, lastSecond = 0\<rparr>,
      \<lparr>now = 16000000, world = 1, trace = [EvUpdate 0, EvSleep 14000000, EvUpdate 14000000]\<rparr>)"
  using crashing_second_phases by (rule iteration_fault)

lemma crashing_handler:
  "invoke (EvRecover (Raised 7)) (noted (Raised 7))
      (crashing\<lparr>isRunning := True, stopCh := OpenChan\<rparr>)
      \<lparr>now = 16000000, world = 1, trace = [EvUpdate 0, EvSleep 14000000, EvUpdate 14000000]\<rparr> =
     (None, crashing\<lparr>isRunning := True, stopCh := OpenChan\<rparr>,
      \<lparr>now = 16000000, world = 1,
       trace = [EvUpdate 0, EvSleep 14000000, EvUpdate 14000000, EvRecover (Raised 7)]\<rparr>)"
  by (simp add: invoke_def noted_def Let_def)

lemma crashing_Start:
  "Start crashing at_start =
       Some (Inr None, crashing\<lparr>isRunning := True, stopCh := OpenChan\<rparr>,
             \<lparr>now = 16000000, world = 1,
              trace = [EvUpdate 0, EvSleep 14000000, EvUpdate 14000000, EvRecover (Raised 7)]\<rparr>)"
proof -
  define L where "L = crashing\<lparr>isRunning := True, stopCh := OpenChan\<rparr>"
  have "loop L (run_locals at_start) at_start =
      loop L \<lparr>frameCounter = 1, lastFrame = 2000000, lastSecond = 0\<rparr>
        \<lparr>now = 16000000, world = 1, trace = [EvUpdate 0, EvSleep 14000000]\<rparr>"
    unfolding L_def using crashing_first_pass by (rule loop_passes)
  also have "\<dots> = Some (Some (Raised 7), L,
      \<lparr>now = 16000000, world = 1, trace = [EvUpdate 0, EvSleep 14000000, EvUpdate 14000000]\<rparr>)"
    unfolding L_def using crashing_second_pass by (intro loop_fault) simp_all
  finally have "run (crashing\<lparr>isRunning := True\<rparr>) at_start = Some (Some (Raised 7), L,
      \<lparr>now = 16000000, world = 1, trace = [EvUpdate 0, EvSleep 14000000, EvUpdate 14000000]\<rparr>)"
    by (simp add: run_def L_def)
  then show ?thesis
    using crashing_handler by (simp add: Start_def crashing_eq L_def)
qed

lemma tripping_eq:
  "tripping = \<lparr>targetFps = 60, msPerFrame = 16, stopCh = NilChan, isDebugMode = False,
      isRunning = False, input = Some trip, update = Some stamp, render = Some (work 3000000),
      recoverFunc = Some noted, currentFps = 0\<rparr>"
  by (simp add: tripping_def NewLoop_eq SetRecoverFunc_def SetRenderFunc_def SetUpdateFunc_def
      SetInputFunc_def)

lemma tripping_first_phases:
  "phases (tripping\<lparr>isRunning := True, stopCh := OpenChan\<rparr>) (run_locals at_start) at_start =
     (None, tripping\<lparr>isRunning := True, stopCh := OpenChan\<rparr>,
      \<lparr>now = 6000000, world = 1000002, trace = [EvInput, EvUpdate 1000000, EvRender]\<rparr>)"
proof -
  define L where "L = tripping\<lparr>isRunning := True, stopCh := OpenChan\<rparr>"
  have L: "input L = Some trip" "update L = Some stamp" "render L = Some (work 3000000)"
    by (simp_all add: L_def tripping_eq)
  have i: "input_phase L at_start = (None, L, \<lparr>now = 1000000, world = Suc 0, trace = [EvInput]\<rparr>)"
    by (simp add: input_phase_def invoke_def L trip_def work_def at_start_def Let_def)
  have u: "update_phase L (run_locals at_start) \<lparr>now = 1000000, world = Suc 0, trace = [EvInput]\<rparr> =
      (None, L, \<lparr>now = 3000000, world = 1000001, trace = [EvInput, EvUpdate 1000000]\<rparr>)"
    by (simp add: update_phase_def invoke_def L stamp_def Since_def sat64_def run_locals_def
        at_start_def Let_def)
  have r: "render_phase L \<lparr>now = 3000000, world = 1000001, trace = [EvInput, EvUpdate 1000000]\<rparr> =
      (None, L, \<lparr>now = 6000000, world = 1000002, trace = [EvInput, EvUpdate 1000000, EvRender]\<rparr>)"
    by (simp add: render_phase_def invoke_def L work_def Let_def)
  have "phases L (run_locals at_start) at_start =
      (None, L, \<lparr>now = 6000000, world = 1000002, trace = [EvInput, EvUpdate 1000000, EvRender]\<rparr>)"
    by (simp add: phases_def i u r)
  then show ?thesis unfolding L_def [symmetric] .
qed

lemma tripping_first_pass:
  "passes (Suc 0) (tripping\<lparr>isRunning := True, stopCh := OpenChan\<rparr>) (run_locals at_start) at_start =
     Some (tripping\<lparr>isRunning := True, stopCh := OpenChan\<rparr>,
           \<lparr>frameCounter = 1, lastFrame = 6000000, lastSecond = 0\<rparr>,
           \<lparr>now = 16000000, world = 1000002,
            trace = [EvInput, EvUpdate 1000000, EvRender, EvSleep 10000000]\<rparr>)"
proof -
  define L where "L = tripping\<lparr>isRunning := True, stopCh := OpenChan\<rparr>"
  define E3 :: "(nat, nat) env" where
    "E3 = \<lparr>now = 6000000, world = 1000002, trace = [EvInput, EvUpdate 1000000, EvRender]\<rparr>"
  define V1 where "V1 = \<lparr>frameCounter = 1, lastFrame = 6000000, lastSecond = 0\<rparr>"
  have L: "msPerFrame L = 16" "stopCh L \<noteq> ClosedChan"
    by (simp_all add: L_def tripping_eq)
  have ph: "phases L (run_locals at_start) at_start = (None, L, E3)"
    unfolding L_def E3_def by (rule tripping_first_phases)
  have v: "(run_locals at_start)\<lparr>lastFrame := now E3,
      frameCounter := frameCounter (run_locals at_start) + 1\<rparr> = V1"
    by (simp add: run_locals_def at_start_simps E3_def V1_def)
  have m: "meter L V1 E3 = (L, V1)"
    by (simp add: meter_eq Since_def sat64_def Second_def E3_def V1_def)
  have p: "pace L (now at_start) E3 =
      \<lparr>now = 16000000, world = 1000002,
       trace = [EvInput, EvUpdate 1000000, EvRender, EvSleep 10000000]\<rparr>"
    by (simp add: pace_def sleepTime_def L Since_def sat64_def Milliseconds_def tdiv_def
        E3_def at_start_simps Sleep_def Millisecond_def)
  have "iteration L (run_locals at_start) at_start =
      (None, L, V1, \<lparr>now = 16000000, world = 1000002,
                     trace = [EvInput, EvUpdate 1000000, EvRender, EvSleep 10000000]\<rparr>)"
    by (simp add: iteration_done [OF ph] v m p)
  then show ?thesis
    unfolding L_def [symmetric] V1_def [symmetric] using L(2) by simp
qed

lemma tripping_second_phases:
  "phases (tripping\<lparr>isRunning := True, stopCh := OpenChan\<rparr>)
      \<lparr>frameCounter = 1, lastFrame = 6000000, lastSecond = 0\<rparr>
      \<lparr>now = 16000000, world = 1000002,
       trace = [EvInput, EvUpdate 1000000, EvRender, EvSleep 10000000]\<rparr> =
     (Some (Raised 7), tripping\<lparr>isRunning := True, stopCh := OpenChan\<rparr>,
      \<lparr>now = 16000000, world = 1000002,
       trace = [EvInput, EvUpdate 1000000, EvRender, EvSleep 10000000, EvInput]\<rparr>)"
proof -
  define L where "L = tripping\<lparr>isRunning := True, stopCh := OpenChan\<rparr>"
  have L: "input L = Some trip" by (simp add: L_def tripping_eq)
  have "phases L \<lparr>frameCounter = 1, lastFrame = 6000000, lastSecond = 0\<rparr>
      \<lparr>now = 16000000, world = 1000002,
       trace = [EvInput, EvUpdate 1000000, EvRender, EvSleep 10000000]\<rparr> =
     (Some (Raised 7), L,
      \<lparr>now = 16000000, world = 1000002,
       trace = [EvInput, EvUpdate 1000000, EvRender, EvSleep 10000000, EvInput]\<rparr>)"
    by (simp add: phases_def input_phase_def invoke_def L trip_def failing_def Let_def)
  then show ?thesis unfolding L_def [symmetric] .
qed

lemma tripping_second_pass:
  "iteration (tripping\<lparr>isRunning := True, stopCh := OpenChan\<rparr>)
      \<lparr>frameCounter = 1, lastFrame = 6000000, lastSecond = 0\<rparr>
      \<lparr>now = 16000000, world = 1000002,
       trace = [EvInput, EvUpdate 1000000, EvRender, EvSleep 10000000]\<rparr> =
     (Some (Raised 7), tripping\<lparr>isRunning := True, stopCh := OpenChan\<rparr>,
      \<lparr>frameCounter = 1, lastFrame = 6000000, lastSecond = 0\<rparr>,
      \<lparr>now = 16000000, world = 1000002,
       trace = [EvInput, EvUpdate 1000000, EvRender, EvSleep 10000000, EvInput]\<rparr>)"
  using tripping_second_phases by (rule iteration_fault)

lemma tripping_handler:
  "invoke (EvRecover (Raised 7)) (noted (Raised 7))
      (tripping\<lparr>isRunning := True, stopCh := OpenChan\<rparr>)
      \<lparr>now = 16000000, world = 1000002,
       trace = [EvInput, EvUpdate 1000000, EvRender, EvSleep 10000000, EvInput]\<rparr> =
     (None, tripping\<lparr>isRunning := True, stopCh := OpenChan\<rparr>,
      \<lparr>now = 16000000, world = 1000002,
       trace = [EvInput, EvUpdate 1000000, EvRender, EvSleep 10000000, EvInput,
                EvRecover (Raised 7)]\<rparr>)"
  by (simp add: invoke_def noted_def Let_def)

lemma lagging_pass:
  "phases ((SetUpdateFunc NewLoop (Some lagging))\<lparr>isRunning := True, stopCh := OpenChan\<rparr>)
      (run_locals at_start) at_start =
     (None, (SetUpdateFunc NewLoop (Some lagging))\<lparr>isRunning := False, stopCh := ClosedChan\<rparr>,
      \<lparr>now = 15999999, world = 1, trace = [EvUpdate 0]\<rparr>)"
  "iteration ((SetUpdateFunc NewLoop (Some lagging))\<lparr>isRunning := True, stopCh := OpenChan\<rparr>)
      (run_locals at_start) at_start =
     (None, (SetUpdateFunc NewLoop (Some lagging))\<lparr>isRunning := False, stopCh := ClosedChan\<rparr>,
      \<lparr>frameCounter = 1, lastFrame = 15999999, lastSecond = 0\<rparr>,
      \<lparr>now = 16999999, world = 1, trace = [EvUpdate 0, EvSleep 1000000]\<rparr>)"
proof -
  define L :: "(nat, nat) Loop" where
    "L = (SetUpdateFunc NewLoop (Some lagging))\<lparr>isRunning := True, stopCh := OpenChan\<rparr>"
  define L' :: "(nat, nat) Loop" where
    "L' = (SetUpdateFunc NewLoop (Some lagging))\<lparr>isRunning := False, stopCh := ClosedChan\<rparr>"
  define E3 :: "(nat, nat) env" where "E3 = \<lparr>now = 15999999, world = 1, trace = [EvUpdate 0]\<rparr>"
  define V1 where "V1 = \<lparr>frameCounter = 1, lastFrame = 15999999, lastSecond = 0\<rparr>"
  define E4 :: "(nat, nat) env" where
    "E4 = \<lparr>now = 16999999, world = 1, trace = [EvUpdate 0, EvSleep 1000000]\<rparr>"
  have L: "input L = None" "update L = Some lagging" "render L = None"
    "stopCh L \<noteq> ClosedChan" "isRunning L" "stopCh L = OpenChan"
    by (simp_all add: L_def SetUpdateFunc_def NewLoop_eq)
  have L': "msPerFrame L' = 16" "stopCh L' = ClosedChan" "render L' = None"
    by (simp_all add: L'_def SetUpdateFunc_def NewLoop_eq)
  have LL: "L\<lparr>isRunning := False, stopCh := ClosedChan\<rparr> = L'"
    by (simp add: L_def L'_def)
  have ph: "phases L (run_locals at_start) at_start = (None, L', E3)"
    by (simp add: phases_def input_phase_def update_phase_def render_phase_def invoke_def L L'
        lagging_def Stop_def LL Since_def sat64_def Let_def run_locals_def at_start_def E3_def)
  have v: "(run_locals at_start)\<lparr>lastFrame := now E3,
      frameCounter := frameCounter (run_locals at_start) + 1\<rparr> = V1"
    by (simp add: run_locals_def at_start_simps E3_def V1_def)
  have m: "meter L' V1 E3 = (L', V1)"
    by (simp add: meter_eq Since_def sat64_def Second_def E3_def V1_def)
  have p: "pace L' (now at_start) E3 = E4"
    by (simp add: pace_def sleepTime_def L' Since_def sat64_def Milliseconds_def tdiv_def
        E3_def E4_def at_start_simps Sleep_def Millisecond_def)
  have it: "iteration L (run_locals at_start) at_start = (None, L', V1, E4)"
    by (simp add: iteration_done [OF ph] v m p)
  from ph show "phases ((SetUpdateFunc NewLoop (Some lagging))\<lparr>isRunning := True, stopCh := OpenChan\<rparr>)
      (run_locals at_start) at_start =
     (None, (SetUpdateFunc NewLoop (Some lagging))\<lparr>isRunning := False, stopCh := ClosedChan\<rparr>,
      \<lparr>now = 15999999, world = 1, trace = [EvUpdate 0]\<rparr>)"
    by (simp only: L_def L'_def E3_def)
  from it show "iteration ((SetUpdateFunc NewLoop (Some lagging))\<lparr>isRunning := True, stopCh := OpenChan\<rparr>)
      (run_locals at_start) at_start =
     (None, (SetUpdateFunc NewLoop (Some lagging))\<lparr>isRunning := False, stopCh := ClosedChan\<rparr>,
      \<lparr>frameCounter = 1, lastFrame = 15999999, lastSecond = 0\<rparr>,
      \<lparr>now = 16999999, world = 1, trace = [EvUpdate 0, EvSleep 1000000]\<rparr>)"
    by (simp only: L_def L'_def E4_def V1_def)
qed

lemma lagging_Start:
  "Start (SetUpdateFunc NewLoop (Some lagging)) at_start =
     Some (Inr None,
           (SetUpdateFunc NewLoop (Some lagging))\<lparr>isRunning := False, stopCh := ClosedChan\<rparr>,
           \<lparr>now = 16999999, world = 1, trace = [EvUpdate 0, EvSleep 1000000]\<rparr>)"
proof -
  define L :: "(nat, nat) Loop" where
    "L = (SetUpdateFunc NewLoop (Some lagging))\<lparr>isRunning := True, stopCh := OpenChan\<rparr>"
  define L' :: "(nat, nat) Loop" where
    "L' = (SetUpdateFunc NewLoop (Some lagging))\<lparr>isRunning := False, stopCh := ClosedChan\<rparr>"
  define V1 where "V1 = \<lparr>frameCounter = 1, lastFrame = 15999999, lastSecond = 0\<rparr>"
  define E4 :: "(nat, nat) env" where
    "E4 = \<lparr>now = 16999999, world = 1, trace = [EvUpdate 0, EvSleep 1000000]\<rparr>"
  have c: "stopCh L \<noteq> ClosedChan" "stopCh L' = ClosedChan" by (simp_all add: L_def L'_def)
  have it: "iteration L (run_locals at_start) at_start = (None, L', V1, E4)"
    unfolding L_def L'_def V1_def E4_def by (rule lagging_pass(2))
  with c(1) have "loop L (run_locals at_start) at_start = loop L' V1 E4" by (rule loop_step)
  also have "\<dots> = Some (None, L', E4)" using c(2) by (rule loop_stopped)
  finally have "run ((SetUpdateFunc NewLoop (Some lagging))\<lparr>isRunning := True\<rparr>) at_start =
      Some (None, L', E4)"
    by (simp add: run_def L_def)
  then show ?thesis
    by (simp add: Start_def SetUpdateFunc_def NewLoop_eq L'_def E4_def)
qed

section \<open>The claims\<close>

text \<open>
  C1: on a loop with no update callback registered, \<^verbatim>\<open>Start\<close> returns the error
  \<^verbatim>\<open>ERR_NO_UPDATE_FUNC\<close> and does nothing else: the loop, the clock, the caller's
  state and the trace are as before, so no pass is made and neither input, update nor
  render is invoked.
\<close>

theorem start_without_update:
  "update l = None \<Longrightarrow> Start l e = Some (Inr (Some ERR_NO_UPDATE_FUNC), l, e)"
  by (simp add: Start_def)

theorem start_without_update_witness:
  "update (SetRenderFunc (SetInputFunc NewLoop (Some (work 5))) (Some (work 7))) = None
   \<and> Start (SetRenderFunc (SetInputFunc NewLoop (Some (work 5))) (Some (work 7))) at_start
       = Some (Inr (Some ERR_NO_UPDATE_FUNC),
               SetRenderFunc (SetInputFunc NewLoop (Some (work 5))) (Some (work 7)), at_start)"
proof -
  have h: "update (SetRenderFunc (SetInputFunc NewLoop (Some (work 5))) (Some (work 7))) = None"
    by (simp add: SetRenderFunc_def SetInputFunc_def NewLoop_fields)
  from h start_without_update [OF h, of at_start] show ?thesis by simp
qed



text \<open>
  C3, as amended: in a pass in which no callback panics, after the callbacks the loop
  computes \<^verbatim>\<open>sleepTime\<close> as \<^verbatim>\<open>msPerFrame\<close> minus the whole milliseconds elapsed
  since the timestamp taken at the start of the pass, and sleeps for that many
  milliseconds exactly when the number is positive, which is exactly when the elapsed
  time is below the budget. Otherwise the pass ends where the callbacks left it: nothing
  is slept and the clock is not advanced. The sleep depends on this pass alone. The
  duration slept is the budget minus the elapsed time rounded up to whole milliseconds:
  at least that difference, and less than one millisecond more.
\<close>

theorem pacing_sleep:
  assumes "phases l v e = (None, l3, e3)"
  shows "sleepTime l (now e) e3 = msPerFrame l - Milliseconds (Since e3 (now e))
       \<and> snd (snd (snd (iteration l v e))) =
           (if 0 < sleepTime l (now e) e3
            then e3\<lparr>now := now e3 + sleepTime l (now e) e3 * Millisecond,
                    trace := trace e3 @ [EvSleep (sleepTime l (now e) e3 * Millisecond)]\<rparr>
            else e3)
       \<and> (0 < sleepTime l (now e) e3) = (Since e3 (now e) < msPerFrame l * Millisecond)
       \<and> msPerFrame l * Millisecond - Since e3 (now e) \<le> sleepTime l (now e) e3 * Millisecond
       \<and> sleepTime l (now e) e3 * Millisecond
           < msPerFrame l * Millisecond - Since e3 (now e) + Millisecond"
proof -
  define l4 where
    "l4 = fst (meter l3 (v\<lparr>lastFrame := now e3, frameCounter := frameCounter v + 1\<rparr>) e3)"
  from phases_keep(1) [OF assms] have "msPerFrame l4 = msPerFrame l"
    by (simp add: l4_def meter_eq config_def)
  then have st: "sleepTime l4 (now e) e3 = sleepTime l (now e) e3"
    by (simp add: sleepTime_def)
  have "snd (snd (snd (iteration l v e))) = pace l4 (now e) e3"
    by (simp add: iteration_done [OF assms] l4_def)
  then have a: "snd (snd (snd (iteration l v e))) =
           (if 0 < sleepTime l (now e) e3
            then e3\<lparr>now := now e3 + sleepTime l (now e) e3 * Millisecond,
                    trace := trace e3 @ [EvSleep (sleepTime l (now e) e3 * Millisecond)]\<rparr>
            else e3)"
    by (simp add: pace_def st Sleep_def Millisecond_def)
  from phases_keep(2) [OF assms] have nn: "0 \<le> Since e3 (now e)"
    by (simp add: Since_def sat64_nonneg)
  then have b: "(0 < sleepTime l (now e) e3) = (Since e3 (now e) < msPerFrame l * Millisecond)"
    by (simp add: sleepTime_def Milliseconds_nonneg Millisecond_def ms_less_iff)
  have c: "msPerFrame l * Millisecond - Since e3 (now e) \<le> sleepTime l (now e) e3 * Millisecond"
    "sleepTime l (now e) e3 * Millisecond
       < msPerFrame l * Millisecond - Since e3 (now e) + Millisecond"
    unfolding sleepTime_def using nn by (rule sleep_rounding)+
  have d: "sleepTime l (now e) e3 = msPerFrame l - Milliseconds (Since e3 (now e))"
    by (simp add: sleepTime_def)
  from d a b c show ?thesis by (simp only: simp_thms)
qed

theorem pacing_sleep_witness:
  "phases demo (run_locals at_start) at_start =
      (None, demo, \<lparr>now = 6000000, world = 3, trace = [EvInput, EvUpdate 1000000, EvRender]\<rparr>)
   \<and> sleepTime demo (now at_start)
        \<lparr>now = 6000000, world = 3, trace = [EvInput, EvUpdate 1000000, EvRender :: nat event]\<rparr> = 10
   \<and> snd (snd (snd (iteration demo (run_locals at_start) at_start))) =
        \<lparr>now = 16000000, world = 3,
         trace = [EvInput, EvUpdate 1000000, EvRender, EvSleep 10000000]\<rparr>
   \<and> Since (\<lparr>now = 6000000, world = 3, trace = [EvInput, EvUpdate 1000000, EvRender]\<rparr>
           :: (nat, nat) env) (now at_start) < msPerFrame demo * Millisecond"
proof -
  define E3 :: "(nat, nat) env" where
    "E3 = \<lparr>now = 6000000, world = 3, trace = [EvInput, EvUpdate 1000000, EvRender]\<rparr>"
  have h: "phases demo (run_locals at_start) at_start = (None, demo, E3)"
    by (simp add: demo_phases run_locals_def at_start_simps sat64_def E3_def)
  have st: "msPerFrame demo - Milliseconds (Since E3 (now at_start)) = 10"
    by (simp add: demo_eq Since_def sat64_def Milliseconds_def tdiv_def E3_def at_start_simps)
  note ps = pacing_sleep [OF h]
  from ps st have a: "sleepTime demo (now at_start) E3 = 10" by simp
  from ps have b: "snd (snd (snd (iteration demo (run_locals at_start) at_start))) =
       E3\<lparr>now := now E3 + 10 * Millisecond, trace := trace E3 @ [EvSleep (10 * Millisecond)]\<rparr>"
    by (simp add: a)
  from ps have c: "Since E3 (now at_start) < msPerFrame demo * Millisecond"
    by (simp add: a)
  from h a b c show ?thesis by (simp add: E3_def Millisecond_def)
qed

text \<open>
  C3, as stated, fails: the duration slept is not the budget minus the elapsed time. On
  a new loop (budget 16 ms) whose update takes 15999999 ns and calls \<^verbatim>\<open>Stop\<close>, one
  nanosecond of the budget is left after the callbacks, and the loop sleeps a whole
  millisecond: the pass takes 16999999 ns, more than the budget.
\<close>

theorem pacing_sleep_not_remainder:
  "Start (SetUpdateFunc NewLoop (Some lagging)) at_start =
     Some (Inr None,
           (SetUpdateFunc NewLoop (Some lagging))\<lparr>isRunning := False, stopCh := ClosedChan\<rparr>,
           \<lparr>now = 16999999, world = 1, trace = [EvUpdate 0, EvSleep 1000000]\<rparr>)
   \<and> phases ((SetUpdateFunc NewLoop (Some lagging))\<lparr>isRunning := True, stopCh := OpenChan\<rparr>)
        (run_locals at_start) at_start =
       (None, (SetUpdateFunc NewLoop (Some lagging))\<lparr>isRunning := False, stopCh := ClosedChan\<rparr>,
        \<lparr>now = 15999999, world = 1, trace = [EvUpdate 0]\<rparr>)
   \<and> msPerFrame (SetUpdateFunc NewLoop (Some lagging) :: (nat, nat) Loop) * Millisecond
       - Since (\<lparr>now = 15999999, world = 1, trace = [EvUpdate 0]\<rparr> :: (nat, nat) env) (now at_start)
       = 1
   \<and> sleepTime (SetUpdateFunc NewLoop (Some lagging) :: (nat, nat) Loop) (now at_start)
        (\<lparr>now = 15999999, world = 1, trace = [EvUpdate 0]\<rparr> :: (nat, nat) env) * Millisecond
       = 1000000"
proof -
  have a: "msPerFrame (SetUpdateFunc NewLoop (Some lagging) :: (nat, nat) Loop) = 16"
    by (simp add: SetUpdateFunc_def NewLoop_eq)
  have b: "Since (\<lparr>now = 15999999, world = 1, trace = [EvUpdate 0]\<rparr> :: (nat, nat) env)
      (now at_start) = 15999999"
    by (simp add: Since_def sat64_def at_start_simps)
  have c: "Milliseconds 15999999 = 15" by (simp add: Milliseconds_def tdiv_def)
  from lagging_Start lagging_pass(1) a b c show ?thesis
    by (simp add: sleepTime_def Millisecond_def)
qed

text \<open>
  C4: at the end of a pass the rate meter compares the time since the window's start
  with one second. When it is at least one second, the current rate becomes the pass
  counter of the window (the pass just made included), the counter restarts at 0 and
  the window at the present reading of the clock; otherwise the current rate is
  unchanged and the counter is one more. \<^verbatim>\<open>GetCurrentFps\<close> reads the current rate,
  which is 0 on a new loop and unchanged by any number of passes that end less than one
  second after the start of the run.
\<close>

theorem rate_meter_window:
  "(phases (l :: ('w, 'v) Loop) v e = (None, l3, e3) \<and> iteration l v e = (None, l', v', e') \<longrightarrow>
      (if Second \<le> Since e3 (lastSecond v)
       then GetCurrentFps l' = frameCounter v + 1 \<and> frameCounter v' = 0 \<and> lastSecond v' = now e3
       else GetCurrentFps l' = GetCurrentFps l \<and> frameCounter v' = frameCounter v + 1
            \<and> lastSecond v' = lastSecond v))
   \<and> GetCurrentFps (NewLoop :: ('w, 'v) Loop) = 0
   \<and> (passes n l0 (run_locals e0) e0 = Some (lk, vk, ek) \<and> now ek < now e0 + Second \<longrightarrow>
        GetCurrentFps lk = GetCurrentFps l0)"
proof (intro conjI impI)
  assume "phases l v e = (None, l3, e3) \<and> iteration l v e = (None, l', v', e')"
  then show "if Second \<le> Since e3 (lastSecond v)
       then GetCurrentFps l' = frameCounter v + 1 \<and> frameCounter v' = 0 \<and> lastSecond v' = now e3
       else GetCurrentFps l' = GetCurrentFps l \<and> frameCounter v' = frameCounter v + 1
            \<and> lastSecond v' = lastSecond v"
    using iteration_window [of l v e l3 e3 l' v' e'] by (simp add: GetCurrentFps_def)
next
  show "GetCurrentFps (NewLoop :: ('w, 'v) Loop) = 0"
    by (simp add: GetCurrentFps_def NewLoop_fields)
next
  assume "passes n l0 (run_locals e0) e0 = Some (lk, vk, ek) \<and> now ek < now e0 + Second"
  then show "GetCurrentFps lk = GetCurrentFps l0"
    using passes_before_window [of n l0 "run_locals e0" e0 lk vk ek]
    by (simp add: GetCurrentFps_def run_locals_def)
qed

theorem rate_meter_window_witness:
  "phases demo \<lparr>frameCounter = 59, lastFrame = 0, lastSecond = - 994000000\<rparr> at_start =
      (None, demo, \<lparr>now = 6000000, world = 3, trace = [EvInput, EvUpdate 1000000, EvRender]\<rparr>)
   \<and> iteration demo \<lparr>frameCounter = 59, lastFrame = 0, lastSecond = - 994000000\<rparr> at_start =
      (None, demo\<lparr>currentFps := 60\<rparr>,
       \<lparr>frameCounter = 0, lastFrame = 6000000, lastSecond = 6000000\<rparr>,
       \<lparr>now = 16000000, world = 3,
        trace = [EvInput, EvUpdate 1000000, EvRender, EvSleep 10000000]\<rparr>)
   \<and> Second \<le> Since (\<lparr>now = 6000000, world = 3, trace = [EvInput, EvUpdate 1000000, EvRender]\<rparr>
                        :: (nat, nat) env) (- 994000000)
   \<and> GetCurrentFps (demo\<lparr>currentFps := 60\<rparr>) = 59 + 1
   \<and> GetCurrentFps (NewLoop :: (nat, nat) Loop) = 0
   \<and> passes (Suc 0) demo (run_locals at_start) at_start =
       Some (demo, \<lparr>frameCounter = 1, lastFrame = 6000000, lastSecond = 0\<rparr>,
             \<lparr>now = 16000000, world = 3,
              trace = [EvInput, EvUpdate 1000000, EvRender, EvSleep 10000000]\<rparr>)
   \<and> (16000000 :: int) < now at_start + Second
   \<and> GetCurrentFps demo = 0"
proof -
  define V where "V = \<lparr>frameCounter = 59, lastFrame = 0, lastSecond = - 994000000\<rparr>"
  define E3 :: "(nat, nat) env" where
    "E3 = \<lparr>now = 6000000, world = 3, trace = [EvInput, EvUpdate 1000000, EvRender]\<rparr>"
  define V1 where "V1 = \<lparr>frameCounter = 60, lastFrame = 6000000, lastSecond = - 994000000\<rparr>"
  define V2 where "V2 = \<lparr>frameCounter = 0, lastFrame = 6000000, lastSecond = 6000000\<rparr>"
  define E4 :: "(nat, nat) env" where
    "E4 = \<lparr>now = 16000000, world = 3,
            trace = [EvInput, EvUpdate 1000000, EvRender, EvSleep 10000000]\<rparr>"
  have ph: "phases demo V at_start = (None, demo, E3)"
    by (simp add: demo_phases sat64_def E3_def V_def)
  have v: "V\<lparr>lastFrame := now E3, frameCounter := frameCounter V + 1\<rparr> = V1"
    by (simp add: E3_def V_def V1_def)
  have w: "Second \<le> Since E3 (- 994000000)"
    by (simp add: Since_def sat64_def Second_def E3_def)
  have m: "meter demo V1 E3 = (demo\<lparr>currentFps := 60\<rparr>, V2)"
    by (simp add: meter_eq Since_def sat64_def Second_def E3_def V1_def V2_def)
  have p: "pace (demo\<lparr>currentFps := 60\<rparr>) (now at_start) E3 = E4"
    by (simp add: pace_def sleepTime_def demo_eq Since_def sat64_def Milliseconds_def tdiv_def
        E3_def E4_def at_start_simps Sleep_def Millisecond_def)
  have it: "iteration demo V at_start = (None, demo\<lparr>currentFps := 60\<rparr>, V2, E4)"
    by (simp add: iteration_done [OF ph] v m p)
  have t: "(16000000 :: int) < now at_start + Second"
    by (simp add: at_start_simps Second_def)
  note inst = rate_meter_window [of demo V at_start demo E3 "demo\<lparr>currentFps := 60\<rparr>" V2 E4
      "Suc 0" demo at_start demo "\<lparr>frameCounter = 1, lastFrame = 6000000, lastSecond = 0\<rparr>" E4]
  from inst ph it w have a: "GetCurrentFps (demo\<lparr>currentFps := 60\<rparr>) = 59 + 1"
    by (simp add: V_def)
  from inst have b: "GetCurrentFps (NewLoop :: (nat, nat) Loop) = 0" by simp
  have c: "GetCurrentFps demo = 0" by (simp add: GetCurrentFps_def demo_eq)
  from ph it w a b c demo_pass t show ?thesis
    by (simp add: V_def E3_def V2_def E4_def)
qed

text \<open>
  C5, as amended: for every stored target rate the frame budget is a whole number of
  milliseconds, 1000 divided by the target rate and truncated, and every call of
  \<^verbatim>\<open>SetTargetFps\<close> (also the one in \<^verbatim>\<open>NewLoop\<close>) computes it anew from the rate it
  stores.
\<close>

theorem frame_budget_whole_milliseconds:
  "msPerFrame (SetTargetFps l r) = 1000 div sint (GetTargetFps (SetTargetFps l r))
   \<and> msPerFrame (NewLoop :: ('w, 'v) Loop) = 1000 div sint (GetTargetFps (NewLoop :: ('w, 'v) Loop))"
proof
  show "msPerFrame (SetTargetFps l r) = 1000 div sint (GetTargetFps (SetTargetFps l r))"
    unfolding GetTargetFps_def by (rule SetTargetFps_msPerFrame)
  show "msPerFrame (NewLoop :: ('w, 'v) Loop) = 1000 div sint (GetTargetFps (NewLoop :: ('w, 'v) Loop))"
    unfolding GetTargetFps_def NewLoop_def by (rule SetTargetFps_msPerFrame)
qed

text \<open>
  C5, as stated, fails: at the default rate of 60 the budget is 16 ms, which is neither
  one second divided by 60 as a duration (exactly, or in whole nanoseconds) nor 1000 / 60
  milliseconds.
\<close>

theorem frame_budget_not_exact:
  "rat_of_int (msPerFrame (SetTargetFps (NewLoop :: (nat, nat) Loop) 60) * Millisecond)
     \<noteq> rat_of_int Second / 60
   \<and> msPerFrame (SetTargetFps (NewLoop :: (nat, nat) Loop) 60) * Millisecond \<noteq> Second div 60"
proof -
  have "msPerFrame_of 60 = 16" by (simp add: msPerFrame_of_eq_div)
  then show ?thesis
    by (simp add: SetTargetFps_def Let_def word_sless_alt Millisecond_def Second_def)
qed

text \<open>
  C6: for every integer input, the reported target rate right after \<^verbatim>\<open>SetTargetFps\<close>
  is the input clamped between 1 and the largest value of the type that reports it: the
  64-bit \<^verbatim>\<open>int\<close> of the current revision, the \<^verbatim>\<open>uint16\<close> of the first one. No input
  is rejected.
\<close>

theorem target_fps_clamped:
  "sint (GetTargetFps (SetTargetFps l r)) = max 1 (min (sint r) (2 ^ 63 - 1))
   \<and> uint (GetTargetFps_v1 (SetTargetFps_v1 l1 r)) = max 1 (min (sint r) 65535)"
proof
  have "sint r < 2 ^ 63" using sint_lt [of r] by simp
  then have "min (sint r) (2 ^ 63 - 1) = sint r" by simp
  then show "sint (GetTargetFps (SetTargetFps l r)) = max 1 (min (sint r) (2 ^ 63 - 1))"
    by (simp add: GetTargetFps_def SetTargetFps_def Let_def sint_max_one)
next
  define lo where "lo = (if word_sless r 65535 then r else 65535)"
  define t where "t = (if word_sless lo 1 then 1 else lo)"
  have lo: "sint lo = min (sint r) 65535"
    by (simp add: lo_def word_sless_alt)
  have t: "sint t = max 1 (min (sint r) 65535)"
    by (simp add: t_def word_sless_alt lo)
  then have rng: "0 \<le> sint t" "sint t < 2 ^ 16" by simp_all
  have "uint (word_of_int (sint t) :: 16 word) = sint t mod 2 ^ LENGTH(16)"
    by (rule uint_word_of_int)
  also have "\<dots> = sint t" using rng by simp
  finally have u: "uint (word_of_int (sint t) :: 16 word) = sint t" .
  have g: "GetTargetFps_v1 (SetTargetFps_v1 l1 r) = word_of_int (sint t)"
    unfolding GetTargetFps_v1_def SetTargetFps_v1_def Let_def t_def lo_def by simp
  show "uint (GetTargetFps_v1 (SetTargetFps_v1 l1 r)) = max 1 (min (sint r) 65535)"
    unfolding g using u t by (simp only:)
qed

text \<open>
  C7, as amended: let a recover function be registered when \<^verbatim>\<open>Start\<close> is called, let
  the run make any number of complete passes, and let a callback of the next pass panic.
  Then that pass ends with the callback that panicked, as the pass of the specification
  does: the callbacks after it are not called, and the pass is not counted. The recover
  function is called next, with the value of the panic, and nothing is invoked after it:
  when it returns, \<^verbatim>\<open>Start\<close> returns nil and leaves the clock, the caller's state and
  the trace as the recover function left them. The running flag is not cleared:
  \<^verbatim>\<open>IsRunning\<close> still reports true unless \<^verbatim>\<open>Stop\<close> has closed the channel meanwhile.
\<close>

theorem fault_recovered:
  assumes "recoverFunc l = Some h" "update l \<noteq> None" "\<not> isRunning l"
    and "passes n (l\<lparr>isRunning := True, stopCh := OpenChan\<rparr>) (run_locals e) e = Some (l1, v1, e1)"
    and "stopCh l1 \<noteq> ClosedChan"
    and "iteration l1 v1 e1 = (Some p, l2, v2, e2)"
    and "invoke (EvRecover p) (h p) l2 e2 = (None, l3, e3)"
  shows "Start l e = Some (Inr None, l3, e3)
       \<and> (Some p, e2) = spec_pass l v1 e1 \<and> v2 = v1
       \<and> e3 = outcome (EvRecover p) (h p) e2
       \<and> trace e3 = trace e2 @ [EvRecover p]
       \<and> IsRunning l3 = (stopCh l3 \<noteq> ClosedChan)"
proof -
  define l0 where "l0 = l\<lparr>isRunning := True, stopCh := OpenChan\<rparr>"
  have "loop l0 (run_locals e) e = loop l1 v1 e1"
    using assms(4) unfolding l0_def by (rule loop_passes)
  also have "\<dots> = Some (Some p, l2, e2)"
    using assms(5,6) by (rule loop_fault)
  finally have "run (l\<lparr>isRunning := True\<rparr>) e = Some (Some p, l2, e2)"
    by (simp add: run_def l0_def)
  moreover have "recoverFunc l2 = Some h"
    using passes_keep [OF assms(4)] iteration_keep(5) [OF assms(6)] assms(1) by simp
  ultimately have st: "Start l e = Some (Inr None, l3, e3)"
    using assms(1,2,3,7) by (simp add: Start_def)
  have "in_run l0" by (simp add: l0_def in_run_def)
  with passes_keep [OF assms(4)] have i1: "in_run l1" by (simp add: l0_def)
  with iteration_keep(7) [OF assms(6)] have "in_run l2" by simp
  with invoke_result(4) [OF assms(7)] have "in_run l3" by simp
  then have ir: "IsRunning l3 = (stopCh l3 \<noteq> ClosedChan)"
    by (auto simp: in_run_def IsRunning_def split: if_splits)
  from passes_keep [OF assms(4)] passes_slots [OF assms(4)]
  have "input l1 = input l" "update l1 = update l" "render l1 = render l" by simp_all
  then have "spec_pass l1 v1 e1 = spec_pass l v1 e1" by (rule spec_pass_slots)
  with phases_exact [OF i1 iteration_faultD(1) [OF assms(6)]]
  have sp: "(Some p, e2) = spec_pass l v1 e1" by simp
  have v: "v2 = v1" using assms(6) by (rule iteration_faultD(2))
  have o: "e3 = outcome (EvRecover p) (h p) e2"
    using invoke_env [OF assms(7)] by (simp add: outcome_def)
  from st sp v o ir invoke_result(1) [OF assms(7)] show ?thesis by (simp only: simp_thms)
qed

theorem fault_recovered_witness:
  "recoverFunc tripping = Some noted \<and> update tripping \<noteq> None \<and> \<not> isRunning tripping
   \<and> passes (Suc 0) (tripping\<lparr>isRunning := True, stopCh := OpenChan\<rparr>) (run_locals at_start)
        at_start =
       Some (tripping\<lparr>isRunning := True, stopCh := OpenChan\<rparr>,
             \<lparr>frameCounter = 1, lastFrame = 6000000, lastSecond = 0\<rparr>,
             \<lparr>now = 16000000, world = 1000002,
              trace = [EvInput, EvUpdate 1000000, EvRender, EvSleep 10000000]\<rparr>)
   \<and> stopCh (tripping\<lparr>isRunning := True, stopCh := OpenChan\<rparr>) \<noteq> ClosedChan
   \<and> Start tripping at_start =
       Some (Inr None, tripping\<lparr>isRunning := True, stopCh := OpenChan\<rparr>,
             \<lparr>now = 16000000, world = 1000002,
              trace = [EvInput, EvUpdate 1000000, EvRender, EvSleep 10000000, EvInput,
                       EvRecover (Raised 7)]\<rparr>)
   \<and> spec_pass tripping \<lparr>frameCounter = 1, lastFrame = 6000000, lastSecond = 0\<rparr>
        \<lparr>now = 16000000, world = 1000002,
         trace = [EvInput, EvUpdate 1000000, EvRender, EvSleep 10000000]\<rparr> =
       (Some (Raised 7),
        \<lparr>now = 16000000, world = 1000002,
         trace = [EvInput, EvUpdate 1000000, EvRender, EvSleep 10000000, EvInput]\<rparr>)
   \<and> IsRunning (tripping\<lparr>isRunning := True, stopCh := OpenChan\<rparr>)"
proof -
  have a: "recoverFunc tripping = Some noted" "update tripping \<noteq> None" "\<not> isRunning tripping"
    by (simp_all add: tripping_eq)
  have b: "stopCh (tripping\<lparr>isRunning := True, stopCh := OpenChan\<rparr>) \<noteq> ClosedChan" by simp
  note t = fault_recovered [OF a tripping_first_pass b tripping_second_pass tripping_handler]
  from t have c: "Start tripping at_start =
       Some (Inr None, tripping\<lparr>isRunning := True, stopCh := OpenChan\<rparr>,
             \<lparr>now = 16000000, world = 1000002,
              trace = [EvInput, EvUpdate 1000000, EvRender, EvSleep 10000000, EvInput,
                       EvRecover (Raised 7)]\<rparr>)" by (simp only:)
  from t have d: "spec_pass tripping \<lparr>frameCounter = 1, lastFrame = 6000000, lastSecond = 0\<rparr>
        \<lparr>now = 16000000, world = 1000002,
         trace = [EvInput, EvUpdate 1000000, EvRender, EvSleep 10000000]\<rparr> =
       (Some (Raised 7),
        \<lparr>now = 16000000, world = 1000002,
         trace = [EvInput, EvUpdate 1000000, EvRender, EvSleep 10000000, EvInput]\<rparr>)"
    by (simp only:)
  from t have e: "IsRunning (tripping\<lparr>isRunning := True, stopCh := OpenChan\<rparr>)" by simp
  from a b tripping_first_pass c d e show ?thesis by (simp only: simp_thms)
qed

text \<open>
  C7, as stated, fails where it likens the outcome to a call of \<^verbatim>\<open>Stop\<close>: after the
  recovered panic the loop still reports that it is running, while after \<^verbatim>\<open>Stop\<close> it
  does not.
\<close>

theorem fault_leaves_loop_running:
  "Start crashing at_start =
       Some (Inr None, crashing\<lparr>isRunning := True, stopCh := OpenChan\<rparr>,
             \<lparr>now = 16000000, world = 1,
              trace = [EvUpdate 0, EvSleep 14000000, EvUpdate 14000000, EvRecover (Raised 7)]\<rparr>)
   \<and> IsRunning (crashing\<lparr>isRunning := True, stopCh := OpenChan\<rparr>)
   \<and> \<not> IsRunning (snd (Stop (crashing\<lparr>isRunning := True, stopCh := OpenChan\<rparr>)))"
  using crashing_Start by (simp add: IsRunning_def Stop_def)

text \<open>
  C8: on a loop that is running and has an update callback, \<^verbatim>\<open>Start\<close> returns nil at
  once: the loop, the clock, the caller's state and the trace are as before, and no
  second run is started.
\<close>

theorem start_while_running:
  "update l \<noteq> None \<Longrightarrow> isRunning l \<Longrightarrow> Start l e = Some (Inr None, l, e)"
  by (simp add: Start_def)

theorem start_while_running_witness:
  "update (demo\<lparr>isRunning := True, stopCh := OpenChan\<rparr>) \<noteq> None
   \<and> isRunning (demo\<lparr>isRunning := True, stopCh := OpenChan\<rparr>)
   \<and> Start (demo\<lparr>isRunning := True, stopCh := OpenChan\<rparr>) at_start
       = Some (Inr None, demo\<lparr>isRunning := True, stopCh := OpenChan\<rparr>, at_start)"
proof -
  have h: "update (demo\<lparr>isRunning := True, stopCh := OpenChan\<rparr>) \<noteq> None"
    "isRunning (demo\<lparr>isRunning := True, stopCh := OpenChan\<rparr>)"
    by (simp_all add: demo_def SetRenderFunc_def SetUpdateFunc_def)
  from h start_while_running [OF h, of at_start] show ?thesis by simp
qed

text \<open>
  C9: on a loop that is not running (a new loop among them) \<^verbatim>\<open>Stop\<close> returns nil and
  leaves the loop as it is. Whenever a set running flag comes with an open channel,
  \<^verbatim>\<open>Stop\<close> returns nil, the loop no longer reports running, and a second
  \<^verbatim>\<open>Stop\<close> returns nil and changes nothing; and every loop a caller can hold between
  two calls of the package is such a loop.
\<close>

theorem stop_idempotent:
  "(\<not> isRunning l \<longrightarrow> Stop l = (Inr None, l))
   \<and> (stoppable l \<longrightarrow>
        fst (Stop l) = Inr None \<and> \<not> IsRunning (snd (Stop l))
        \<and> Stop (snd (Stop l)) = (Inr None, snd (Stop l)))
   \<and> (api_state l \<longrightarrow> stoppable l)"
proof (intro conjI impI)
  assume "\<not> isRunning l"
  then show "Stop l = (Inr None, l)" by (simp add: Stop_def)
next
  assume s: "stoppable l"
  then show "fst (Stop l) = Inr None" by (simp add: Stop_stoppable)
  show "\<not> IsRunning (snd (Stop l))"
    by (simp add: Stop_def IsRunning_def split: chan.split)
  then show "Stop (snd (Stop l)) = (Inr None, snd (Stop l))"
    by (simp add: Stop_def IsRunning_def)
next
  assume "api_state l"
  then show "stoppable l" by (rule api_state_stoppable)
qed

theorem stop_idempotent_witness:
  "\<not> isRunning (NewLoop :: (nat, nat) Loop)
   \<and> Stop (NewLoop :: (nat, nat) Loop) = (Inr None, NewLoop)
   \<and> \<not> isRunning ((SetUpdateFunc NewLoop (Some quitting))\<lparr>isRunning := False, stopCh := ClosedChan\<rparr>)
   \<and> Stop ((SetUpdateFunc NewLoop (Some quitting))\<lparr>isRunning := False, stopCh := ClosedChan\<rparr>)
       = (Inr None, (SetUpdateFunc NewLoop (Some quitting))\<lparr>isRunning := False, stopCh := ClosedChan\<rparr>)
   \<and> api_state (crashing\<lparr>isRunning := True, stopCh := OpenChan\<rparr>)
   \<and> stoppable (crashing\<lparr>isRunning := True, stopCh := OpenChan\<rparr>)
   \<and> fst (Stop (crashing\<lparr>isRunning := True, stopCh := OpenChan\<rparr>)) = Inr None
   \<and> \<not> IsRunning (snd (Stop (crashing\<lparr>isRunning := True, stopCh := OpenChan\<rparr>)))
   \<and> Stop (snd (Stop (crashing\<lparr>isRunning := True, stopCh := OpenChan\<rparr>)))
       = (Inr None, snd (Stop (crashing\<lparr>isRunning := True, stopCh := OpenChan\<rparr>)))"
proof -
  have a: "\<not> isRunning (NewLoop :: (nat, nat) Loop)" by (simp add: NewLoop_fields)
  have a': "\<not> isRunning ((SetUpdateFunc NewLoop (Some quitting))\<lparr>isRunning := False,
      stopCh := ClosedChan\<rparr>)"
    by simp
  have "api_state crashing"
    unfolding crashing_def by (intro api_state.set_recover api_state.set_update api_state.new)
  from api_state.start [OF this crashing_Start]
  have b: "api_state (crashing\<lparr>isRunning := True, stopCh := OpenChan\<rparr>)" .
  note c = stop_idempotent [of "crashing\<lparr>isRunning := True, stopCh := OpenChan\<rparr>"]
  from b c have d: "stoppable (crashing\<lparr>isRunning := True, stopCh := OpenChan\<rparr>)" by simp
  from a a' b c d stop_idempotent [of "NewLoop :: (nat, nat) Loop"]
    stop_idempotent [of "(SetUpdateFunc NewLoop (Some quitting))\<lparr>isRunning := False,
      stopCh := ClosedChan\<rparr>"]
  show ?thesis by simp
qed

text \<open>
  C10: for every target rate above 1000 the frame budget is 0 milliseconds, the sleep time
  computed from it is never positive (the clock does not run backwards), and in any
  number of passes of a loop with that rate no sleep is recorded: the loop is not paced.
\<close>

theorem unthrottled_above_1000:
  assumes "word_sless 1000 r"
  shows "msPerFrame (SetTargetFps l r) = 0
       \<and> (start \<le> now e1 \<longrightarrow> sleepTime (SetTargetFps l r) start e1 \<le> 0)
       \<and> (passes n (SetTargetFps l r) v e = Some (l', v', e') \<longrightarrow>
            sleeps (trace e') = sleeps (trace e))"
proof -
  from assms have "1000 < sint r" by (simp add: word_sless_alt)
  then have m: "msPerFrame (SetTargetFps l r) = 0"
    by (simp add: SetTargetFps_msPerFrame) (simp add: SetTargetFps_def Let_def word_sless_alt)
  have "sleepTime (SetTargetFps l r) start e1 \<le> 0" if "start \<le> now e1"
  proof -
    from that have "0 \<le> Since e1 start" by (simp add: Since_def sat64_nonneg)
    then have "0 \<le> Milliseconds (Since e1 start)"
      by (simp add: Milliseconds_nonneg pos_imp_zdiv_nonneg_iff)
    with m show ?thesis by (simp add: sleepTime_def)
  qed
  with m passes_no_sleep [OF m, of n v e l' v' e'] show ?thesis by simp
qed

theorem unthrottled_above_1000_witness:
  "word_sless 1000 (2000 :: 64 word)
   \<and> msPerFrame (SetTargetFps demo 2000) = 0
   \<and> (0 :: int) \<le> now (\<lparr>now = 6000000, world = 3, trace = [EvInput, EvUpdate 1000000, EvRender]\<rparr>
                            :: (nat, nat) env)
   \<and> sleepTime (SetTargetFps demo 2000) 0
        \<lparr>now = 6000000, world = 3, trace = [EvInput, EvUpdate 1000000, EvRender]\<rparr> \<le> 0
   \<and> passes (Suc 0) (SetTargetFps demo 2000) (run_locals at_start) at_start =
       Some (SetTargetFps demo 2000, \<lparr>frameCounter = 1, lastFrame = 6000000, lastSecond = 0\<rparr>,
             \<lparr>now = 6000000, world = 3, trace = [EvInput, EvUpdate 1000000, EvRender]\<rparr>)
   \<and> sleeps [EvInput, EvUpdate 1000000, EvRender :: nat event] = sleeps (trace at_start)"
proof -
  have h: "word_sless 1000 (2000 :: 64 word)" by (simp add: word_sless_alt)
  note c = unthrottled_above_1000 [OF h, of demo 0
      "\<lparr>now = 6000000, world = 3, trace = [EvInput, EvUpdate 1000000, EvRender]\<rparr>"
      "Suc 0" "run_locals at_start" at_start "SetTargetFps demo 2000"
      "\<lparr>frameCounter = 1, lastFrame = 6000000, lastSecond = 0\<rparr>"
      "\<lparr>now = 6000000, world = 3, trace = [EvInput, EvUpdate 1000000, EvRender]\<rparr>"]
  from h c fast_pass show ?thesis by simp
qed

end
